theory Spec2Isabelle
  imports Complex_Main "HOL-Library.Log_Nat" "HOL-Library.Multiset" "HOL-Library.Char_ord"
    "HOL-Library.List_Lexorder"
begin

section \<open>JavaScript numbers\<close>

text \<open>
  Every number of \<^verbatim>\<open>App.tsx\<close> is an IEEE 754 binary64 value. A finite one is modelled by
  the rational it denotes, next to \<open>NaN\<close> and the two infinities. The model has one zero:
  \<open>-0\<close> and \<open>+0\<close> are identified, which no comparison, sum or product of the program
  tells apart.
\<close>

datatype number = NaN | PosInfinity | NegInfinity | Fin rat

definition ilog2 :: "rat \<Rightarrow> int" where
  \<comment> \<open>\<open>\<lfloor>log\<^sub>2 x\<rfloor>\<close> of a positive rational, from the bit lengths of numerator and denominator\<close>
  "ilog2 x = (let (a, b) = quotient_of x; k = bitlen a - bitlen b
              in if 2 powi k \<le> x then k else k - 1)"

definition round_half_even :: "rat \<Rightarrow> int" where
  "round_half_even x = (let f = \<lfloor>x\<rfloor>; d = x - of_int f
                        in if d < 1 / 2 then f else if 1 / 2 < d then f + 1
                           else if even f then f else f + 1)"

definition to_double :: "rat \<Rightarrow> number" where
  \<comment> \<open>round to nearest binary64, ties to even: 53 significant bits, least exponent \<open>-1022\<close>
      (below it the spacing stays \<open>2\<^sup>-\<^sup>1\<^sup>0\<^sup>7\<^sup>4\<close>), overflow to an infinity\<close>
  "to_double x =
     (if x = 0 then Fin 0
      else let e = max (ilog2 \<bar>x\<bar>) (- 1022);
               q = 2 powi (e - 52);
               r = of_int (round_half_even (x / q)) * q
           in if 2 powi 1024 \<le> \<bar>r\<bar> then (if 0 < x then PosInfinity else NegInfinity)
              else Fin r)"

fun nadd :: "number \<Rightarrow> number \<Rightarrow> number" where
  "nadd NaN _ = NaN"
| "nadd _ NaN = NaN"
| "nadd PosInfinity NegInfinity = NaN"
| "nadd NegInfinity PosInfinity = NaN"
| "nadd PosInfinity _ = PosInfinity"
| "nadd NegInfinity _ = NegInfinity"
| "nadd _ PosInfinity = PosInfinity"
| "nadd _ NegInfinity = NegInfinity"
| "nadd (Fin a) (Fin b) = to_double (a + b)"

definition signed_inf :: "bool \<Rightarrow> number" where
  "signed_inf positive = (if positive then PosInfinity else NegInfinity)"

fun nmul :: "number \<Rightarrow> number \<Rightarrow> number" where
  "nmul NaN _ = NaN"
| "nmul _ NaN = NaN"
| "nmul (Fin a) (Fin b) = to_double (a * b)"
| "nmul (Fin a) PosInfinity = (if a = 0 then NaN else signed_inf (0 < a))"
| "nmul (Fin a) NegInfinity = (if a = 0 then NaN else signed_inf (a < 0))"
| "nmul PosInfinity (Fin b) = (if b = 0 then NaN else signed_inf (0 < b))"
| "nmul NegInfinity (Fin b) = (if b = 0 then NaN else signed_inf (b < 0))"
| "nmul PosInfinity PosInfinity = PosInfinity"
| "nmul PosInfinity NegInfinity = NegInfinity"
| "nmul NegInfinity PosInfinity = NegInfinity"
| "nmul NegInfinity NegInfinity = PosInfinity"

fun ndiv :: "number \<Rightarrow> number \<Rightarrow> number" where
  "ndiv NaN _ = NaN"
| "ndiv _ NaN = NaN"
| "ndiv (Fin a) (Fin b) =
     (if b = 0 then (if a = 0 then NaN else signed_inf (0 < a)) else to_double (a / b))"
| "ndiv (Fin a) PosInfinity = Fin 0"
| "ndiv (Fin a) NegInfinity = Fin 0"
| "ndiv PosInfinity (Fin b) = signed_inf (0 \<le> b)"
| "ndiv NegInfinity (Fin b) = signed_inf (b < 0)"
| "ndiv _ _ = NaN"

fun ngt :: "number \<Rightarrow> number \<Rightarrow> bool" where
  \<comment> \<open>\<^verbatim>\<open>x > y\<close>: false as soon as one side is \<open>NaN\<close>\<close>
  "ngt NaN _ = False"
| "ngt _ NaN = False"
| "ngt (Fin a) (Fin b) = (b < a)"
| "ngt PosInfinity PosInfinity = False"
| "ngt PosInfinity _ = True"
| "ngt NegInfinity _ = False"
| "ngt (Fin a) PosInfinity = False"
| "ngt (Fin a) NegInfinity = True"

text \<open>
  \<^verbatim>\<open>x.toFixed(2)\<close> prints the integer \<open>n\<close> for which \<open>n / 100\<close> is nearest to the exact value of
  \<open>x\<close>, the larger one of two; a magnitude of \<open>10\<^sup>2\<^sup>1\<close> or more is printed as \<^verbatim>\<open>String(x)\<close>
  prints it, and that text reads back as \<open>x\<close>. The printed text is modelled by the number it
  spells.
\<close>

datatype numeral_text = TextNaN | TextInfinity | TextNegInfinity | TextDecimal rat

fun toFixed2 :: "number \<Rightarrow> numeral_text" where
  "toFixed2 NaN = TextNaN"
| "toFixed2 PosInfinity = TextInfinity"
| "toFixed2 NegInfinity = TextNegInfinity"
| "toFixed2 (Fin x) =
     (if 10 ^ 21 \<le> \<bar>x\<bar> then TextDecimal x
      else let n = \<lfloor>\<bar>x\<bar> * 100 + 1 / 2\<rfloor>
           in TextDecimal ((if x < 0 then - 1 else 1) * of_int n / 100))"

fun parseFloat :: "numeral_text \<Rightarrow> number" where
  "parseFloat TextNaN = NaN"
| "parseFloat TextInfinity = PosInfinity"
| "parseFloat TextNegInfinity = NegInfinity"
| "parseFloat (TextDecimal d) = to_double d"

section \<open>Domain model\<close>

text \<open>
  The interfaces \<^verbatim>\<open>Course\<close>, \<^verbatim>\<open>Semester\<close>, \<^verbatim>\<open>Year\<close> and \<^verbatim>\<open>UserProfile\<close>. The fields \<^verbatim>\<open>id\<close> and
  \<^verbatim>\<open>name\<close> occur in three interfaces and carry the interface as a prefix here.
\<close>

record Course =
  course_id :: string
  course_name :: string
  grade :: string
  credits :: number

record Semester =
  semester_id :: string
  semester_name :: string
  courses :: "Course list"

record Year =
  year_id :: string
  year_name :: string
  semesters :: "Semester list"

record UserProfile =
  name :: string
  indexNumber :: string
  university :: string
  photo :: string

definition gradePoints :: "(string \<times> number) list" where
  "gradePoints =
     [(''A'', to_double 4), (''A-'', to_double (37 / 10)),
      (''B+'', to_double (33 / 10)), (''B'', to_double 3), (''B-'', to_double (27 / 10)),
      (''C+'', to_double (23 / 10)), (''C'', to_double 2), (''C-'', to_double (17 / 10)),
      (''D+'', to_double (13 / 10)), (''D'', to_double 1), (''D-'', to_double (7 / 10)),
      (''F'', to_double 0)]"

definition gradePoint :: "string \<Rightarrow> number" where
  \<comment> \<open>\<^verbatim>\<open>gradePoints[g]\<close> as a factor of a product: a key that is not in the table gives
      \<^verbatim>\<open>undefined\<close>, which the product turns into \<open>NaN\<close>\<close>
  "gradePoint g = (case map_of gradePoints g of None \<Rightarrow> NaN | Some p \<Rightarrow> p)"

section \<open>GPA engine\<close>

definition calculateGPA :: "Course list \<Rightarrow> number" where
  "calculateGPA cs =
     (let (totalPoints, totalCredits) =
            foldl (\<lambda>(totalPoints, totalCredits) course.
                     (nadd totalPoints (nmul (gradePoint (grade course)) (credits course)),
                      nadd totalCredits (credits course)))
                  (Fin 0, Fin 0) cs
      in if ngt totalCredits (Fin 0)
         then parseFloat (toFixed2 (ndiv totalPoints totalCredits))
         else Fin 0)"

section \<open>Integers as text\<close>

text \<open>
  The id counter \<^verbatim>\<open>nextId.current\<close> and the lengths that the template literals print are
  integers far below \<open>2\<^sup>5\<^sup>3\<close>, where binary64 arithmetic is exact: they are modelled as
  mathematical integers. \<open>None\<close> stands for \<open>NaN\<close>, which \<^verbatim>\<open>parseInt\<close> returns on text
  without a digit.
\<close>

definition digit_char :: "nat \<Rightarrow> char" where
  "digit_char d = char_of (48 + d)"

fun show_nat :: "nat \<Rightarrow> string" where
  "show_nat n = (if n < 10 then [digit_char n] else show_nat (n div 10) @ [digit_char (n mod 10)])"

declare show_nat.simps [simp del]

definition toString :: "int option \<Rightarrow> string" where
  "toString v = (case v of None \<Rightarrow> ''NaN''
                 | Some k \<Rightarrow> if k < 0 then CHR ''-'' # show_nat (nat (- k)) else show_nat (nat k))"

definition is_space :: "char \<Rightarrow> bool" where
  \<comment> \<open>the white space and line terminators of the ASCII range\<close>
  "is_space c = (c \<in> set [CHR 0x09, CHR 0x0A, CHR 0x0B, CHR 0x0C, CHR 0x0D, CHR 0x20])"

definition digit_value :: "char \<Rightarrow> nat option" where
  "digit_value c =
     (let k = (of_char c :: nat)
      in if 48 \<le> k \<and> k \<le> 57 then Some (k - 48)
         else if 97 \<le> k \<and> k \<le> 122 then Some (k - 87)
         else if 65 \<le> k \<and> k \<le> 90 then Some (k - 55)
         else None)"

definition is_digit :: "nat \<Rightarrow> char \<Rightarrow> bool" where
  "is_digit radix c = (case digit_value c of None \<Rightarrow> False | Some d \<Rightarrow> d < radix)"

definition digits_value :: "nat \<Rightarrow> string \<Rightarrow> nat" where
  "digits_value radix z = foldl (\<lambda>acc c. acc * radix + the (digit_value c)) 0 z"

definition parseInt :: "string \<Rightarrow> int option" where
  \<comment> \<open>\<^verbatim>\<open>parseInt(text)\<close> without a radix: leading white space, a sign, a \<^verbatim>\<open>0x\<close> prefix,
      then the longest run of digits\<close>
  "parseInt inputString =
     (let s = dropWhile is_space inputString;
          negative = (s \<noteq> [] \<and> hd s = CHR ''-'');
          s = (if s \<noteq> [] \<and> (hd s = CHR ''+'' \<or> hd s = CHR ''-'') then tl s else s);
          hex = (take 2 s = ''0x'' \<or> take 2 s = ''0X'');
          radix = (if hex then 16 else 10);
          s = (if hex then drop 2 s else s);
          z = takeWhile (is_digit radix) s
      in if z = [] then None
         else Some ((if negative then - 1 else 1) * int (digits_value radix z)))"

definition number_of :: "int option \<Rightarrow> number" where
  "number_of v = (case v of None \<Rightarrow> NaN | Some k \<Rightarrow> to_double (of_int k))"

definition credits_input :: "string \<Rightarrow> number" where
  \<comment> \<open>\<^verbatim>\<open>parseInt(e.target.value) || 0\<close>: \<open>NaN\<close> and zero are the falsy numbers\<close>
  "credits_input v = (let x = number_of (parseInt v) in if x = NaN \<or> x = Fin 0 then Fin 0 else x)"

section \<open>Persistence adapter\<close>

text \<open>
  The database \<^verbatim>\<open>gpaCalculator\<close> has two object stores. \<^verbatim>\<open>years\<close> holds \<^verbatim>\<open>Year\<close> records under
  their \<^verbatim>\<open>id\<close>; an object store keeps its records in ascending key order and \<^verbatim>\<open>getAll\<close> returns
  them so, hence the list. \<^verbatim>\<open>userProfile\<close> holds the profile under the key \<^verbatim>\<open>'user'\<close>; the
  stored object is the profile with that key as a fifth property \<^verbatim>\<open>id\<close>.
\<close>

record Database =
  years_store :: "Year list"
  profile_store :: "string \<rightharpoonup> UserProfile"

datatype idb_error = ConstraintError

fun store_add :: "Year \<Rightarrow> Year list \<Rightarrow> idb_error + Year list" where
  \<comment> \<open>\<^verbatim>\<open>store.add(year)\<close>: a record under a key that the store holds already is refused\<close>
  "store_add year [] = Inr [year]"
| "store_add year (r # rs) =
     (if year_id year = year_id r then Inl ConstraintError
      else if year_id year < year_id r then Inr (year # r # rs)
      else (case store_add year rs of Inl e \<Rightarrow> Inl e | Inr rs' \<Rightarrow> Inr (r # rs')))"

fun add_all :: "Year list \<Rightarrow> Year list \<Rightarrow> idb_error + Year list" where
  "add_all [] rs = Inr rs"
| "add_all (year # data) rs =
     (case store_add year rs of Inl e \<Rightarrow> Inl e | Inr rs' \<Rightarrow> add_all data rs')"

definition saveData :: "Year list \<Rightarrow> Database \<Rightarrow> Database" where
  \<comment> \<open>\<^verbatim>\<open>clear\<close>, then one \<^verbatim>\<open>add\<close> per year, in one transaction: a refused \<^verbatim>\<open>add\<close> aborts the
      transaction, which undoes the \<^verbatim>\<open>clear\<close> as well; nobody handles the rejected promise\<close>
  "saveData data d =
     (case add_all data [] of
        Inl e \<Rightarrow> d
      | Inr rs \<Rightarrow> d\<lparr>years_store := rs\<rparr>)"

definition saveUserProfile :: "UserProfile \<Rightarrow> Database \<Rightarrow> Database" where
  "saveUserProfile profile d = d\<lparr>profile_store := (profile_store d)(''user'' \<mapsto> profile)\<rparr>"

section \<open>State container\<close>

record State =
  years :: "Year list"
  expandedYears :: "string set"
  nextId :: "int option"
  userProfile :: UserProfile
  isEditingProfile :: bool
  db :: Database

definition emptyProfile :: UserProfile where
  "emptyProfile = \<lparr>name = '''', indexNumber = '''', university = '''', photo = ''''\<rparr>"

definition initialYear :: Year where
  "initialYear =
     \<lparr>year_id = ''1'', year_name = ''Year 1'',
      semesters = [\<lparr>semester_id = ''1-1'', semester_name = ''Semester 1'', courses = []\<rparr>,
                   \<lparr>semester_id = ''1-2'', semester_name = ''Semester 2'', courses = []\<rparr>]\<rparr>"

definition semester_ids :: "Semester \<Rightarrow> string list" where
  "semester_ids semester = semester_id semester # map course_id (courses semester)"

definition year_ids :: "Year \<Rightarrow> string list" where
  "year_ids year = year_id year # concat (map semester_ids (semesters year))"

definition tree_ids :: "Year list \<Rightarrow> string list" where
  \<comment> \<open>every id of the tree, in the order in which \<^verbatim>\<open>loadData\<close> flattens them\<close>
  "tree_ids ys = concat (map year_ids ys)"

fun math_max :: "int option list \<Rightarrow> int option" where
  \<comment> \<open>\<^verbatim>\<open>Math.max\<close> of one argument or more: \<open>NaN\<close> as soon as one argument is.
      \<^verbatim>\<open>loadData\<close> passes the ids of a list with a year; the call without argument, which
      gives \<open>-\<infinity>\<close>, does not occur, and the first equation is never used by it\<close>
  "math_max [] = None"
| "math_max [x] = x"
| "math_max (x # xs) =
     (case (x, math_max xs) of (Some a, Some b) \<Rightarrow> Some (max a b) | _ \<Rightarrow> None)"

definition loadData :: "Database \<Rightarrow> State" where
  \<comment> \<open>the state after a start of the application on the database \<open>d\<close>: the initial values of
      the hooks, then the effect\<close>
  "loadData d =
     (let s = \<lparr>years = [], expandedYears = {}, nextId = Some 1, userProfile = emptyProfile,
               isEditingProfile = False, db = d\<rparr>;
          loadedYears = years_store d;
          loadedProfile = profile_store d ''user'';
          s = (if length loadedYears > 0
               then s\<lparr>years := loadedYears,
                      expandedYears := set (map year_id loadedYears),
                      nextId := map_option (\<lambda>m. m + 1)
                                  (math_max (map parseInt (tree_ids loadedYears)))\<rparr>
               else s\<lparr>years := [initialYear],
                      expandedYears := {''1''},
                      db := saveData [initialYear] d\<rparr>)
      in case loadedProfile of None \<Rightarrow> s | Some p \<Rightarrow> s\<lparr>userProfile := p\<rparr>)"

definition generateId :: "int option \<Rightarrow> int option \<times> string" where
  "generateId n = (let n' = map_option (\<lambda>m. m + 1) n in (n', toString n'))"

definition addYear :: "State \<Rightarrow> State" where
  "addYear s =
     (let prevYears = years s;
          (n, newYearId) = generateId (nextId s);
          newYears = prevYears @
            [\<lparr>year_id = newYearId,
              year_name = ''Year '' @ show_nat (length prevYears + 1),
              semesters =
                [\<lparr>semester_id = newYearId @ ''-1'', semester_name = ''Semester 1'', courses = []\<rparr>,
                 \<lparr>semester_id = newYearId @ ''-2'', semester_name = ''Semester 2'', courses = []\<rparr>]\<rparr>]
      in s\<lparr>years := newYears, nextId := n, db := saveData newYears (db s),
            expandedYears := insert newYearId (expandedYears s)\<rparr>)"

definition deleteYear_years :: "string \<Rightarrow> Year list \<Rightarrow> Year list" where
  "deleteYear_years yearId prevYears = filter (\<lambda>year. year_id year \<noteq> yearId) prevYears"

definition deleteYear :: "string \<Rightarrow> State \<Rightarrow> State" where
  "deleteYear yearId s =
     (let newYears = deleteYear_years yearId (years s)
      in s\<lparr>years := newYears, db := saveData newYears (db s),
            expandedYears := expandedYears s - {yearId}\<rparr>)"

fun addSemester_years :: "string \<Rightarrow> Year list \<Rightarrow> int option \<Rightarrow> Year list \<times> int option" where
  \<comment> \<open>the \<^verbatim>\<open>map\<close> over the years, with the counter that \<^verbatim>\<open>generateId\<close> advances\<close>
  "addSemester_years yearId [] n = ([], n)"
| "addSemester_years yearId (year # rest) n =
     (if year_id year = yearId
      then let (n, newSemesterId) = generateId n;
               year' = year\<lparr>semesters := semesters year @
                          [\<lparr>semester_id = newSemesterId,
                            semester_name = ''Semester '' @ show_nat (length (semesters year) + 1),
                            courses = []\<rparr>]\<rparr>;
               (rest', n) = addSemester_years yearId rest n
           in (year' # rest', n)
      else let (rest', n) = addSemester_years yearId rest n in (year # rest', n))"

definition addSemester :: "string \<Rightarrow> State \<Rightarrow> State" where
  "addSemester yearId s =
     (let (newYears, n) = addSemester_years yearId (years s) (nextId s)
      in s\<lparr>years := newYears, nextId := n, db := saveData newYears (db s)\<rparr>)"

definition deleteSemester_years :: "string \<Rightarrow> string \<Rightarrow> Year list \<Rightarrow> Year list" where
  "deleteSemester_years yearId semesterId prevYears =
     map (\<lambda>year. if year_id year = yearId
                  then year\<lparr>semesters :=
                         filter (\<lambda>semester. semester_id semester \<noteq> semesterId) (semesters year)\<rparr>
                  else year) prevYears"

definition deleteSemester :: "string \<Rightarrow> string \<Rightarrow> State \<Rightarrow> State" where
  "deleteSemester yearId semesterId s =
     (let newYears = deleteSemester_years yearId semesterId (years s)
      in s\<lparr>years := newYears, db := saveData newYears (db s)\<rparr>)"

fun addCourse_semesters ::
  "string \<Rightarrow> Semester list \<Rightarrow> int option \<Rightarrow> Semester list \<times> int option" where
  "addCourse_semesters semesterId [] n = ([], n)"
| "addCourse_semesters semesterId (semester # rest) n =
     (if semester_id semester = semesterId
      then let (n, newId) = generateId n;
               semester' = semester\<lparr>courses := courses semester @
                             [\<lparr>course_id = newId, course_name = '''', grade = ''A'',
                               credits = Fin 3\<rparr>]\<rparr>;
               (rest', n) = addCourse_semesters semesterId rest n
           in (semester' # rest', n)
      else let (rest', n) = addCourse_semesters semesterId rest n in (semester # rest', n))"

fun addCourse_years ::
  "string \<Rightarrow> string \<Rightarrow> Year list \<Rightarrow> int option \<Rightarrow> Year list \<times> int option" where
  "addCourse_years yearId semesterId [] n = ([], n)"
| "addCourse_years yearId semesterId (year # rest) n =
     (if year_id year = yearId
      then let (semesters', n) = addCourse_semesters semesterId (semesters year) n;
               (rest', n) = addCourse_years yearId semesterId rest n
           in (year\<lparr>semesters := semesters'\<rparr> # rest', n)
      else let (rest', n) = addCourse_years yearId semesterId rest n in (year # rest', n))"

definition addCourse :: "string \<Rightarrow> string \<Rightarrow> State \<Rightarrow> State" where
  "addCourse yearId semesterId s =
     (let (newYears, n) = addCourse_years yearId semesterId (years s) (nextId s)
      in s\<lparr>years := newYears, nextId := n, db := saveData newYears (db s)\<rparr>)"

text \<open>
  \<^verbatim>\<open>updateCourse\<close> takes a field of \<^verbatim>\<open>Course\<close> and a value; the pairs that respect the types
  of the interface are the four below.
\<close>

datatype course_update = SetId string | SetName string | SetGrade string | SetCredits number

fun set_field :: "course_update \<Rightarrow> Course \<Rightarrow> Course" where
  "set_field (SetId v) course = course\<lparr>course_id := v\<rparr>"
| "set_field (SetName v) course = course\<lparr>course_name := v\<rparr>"
| "set_field (SetGrade v) course = course\<lparr>grade := v\<rparr>"
| "set_field (SetCredits v) course = course\<lparr>credits := v\<rparr>"

definition updateCourse_years ::
  "string \<Rightarrow> string \<Rightarrow> string \<Rightarrow> course_update \<Rightarrow> Year list \<Rightarrow> Year list" where
  "updateCourse_years yearId semesterId courseId upd prevYears =
     map (\<lambda>year.
            if year_id year = yearId
            then year\<lparr>semesters :=
                   map (\<lambda>semester.
                          if semester_id semester = semesterId
                          then semester\<lparr>courses :=
                                 map (\<lambda>course. if course_id course = courseId
                                                 then set_field upd course else course)
                                     (courses semester)\<rparr>
                          else semester)
                       (semesters year)\<rparr>
            else year) prevYears"

definition updateCourse ::
  "string \<Rightarrow> string \<Rightarrow> string \<Rightarrow> course_update \<Rightarrow> State \<Rightarrow> State" where
  "updateCourse yearId semesterId courseId upd s =
     (let newYears = updateCourse_years yearId semesterId courseId upd (years s)
      in s\<lparr>years := newYears, db := saveData newYears (db s)\<rparr>)"

definition removeCourse_years :: "string \<Rightarrow> string \<Rightarrow> string \<Rightarrow> Year list \<Rightarrow> Year list" where
  "removeCourse_years yearId semesterId courseId prevYears =
     map (\<lambda>year.
            if year_id year = yearId
            then year\<lparr>semesters :=
                   map (\<lambda>semester.
                          if semester_id semester = semesterId
                          then semester\<lparr>courses :=
                                 filter (\<lambda>course. course_id course \<noteq> courseId)
                                        (courses semester)\<rparr>
                          else semester)
                       (semesters year)\<rparr>
            else year) prevYears"

definition removeCourse :: "string \<Rightarrow> string \<Rightarrow> string \<Rightarrow> State \<Rightarrow> State" where
  "removeCourse yearId semesterId courseId s =
     (let newYears = removeCourse_years yearId semesterId courseId (years s)
      in s\<lparr>years := newYears, db := saveData newYears (db s)\<rparr>)"

datatype profile_field = FieldName | FieldIndexNumber | FieldUniversity | FieldPhoto

fun handleProfileChange :: "profile_field \<Rightarrow> string \<Rightarrow> State \<Rightarrow> State" where
  "handleProfileChange FieldName v s = s\<lparr>userProfile := (userProfile s)\<lparr>name := v\<rparr>\<rparr>"
| "handleProfileChange FieldIndexNumber v s =
     s\<lparr>userProfile := (userProfile s)\<lparr>indexNumber := v\<rparr>\<rparr>"
| "handleProfileChange FieldUniversity v s =
     s\<lparr>userProfile := (userProfile s)\<lparr>university := v\<rparr>\<rparr>"
| "handleProfileChange FieldPhoto v s = s\<lparr>userProfile := (userProfile s)\<lparr>photo := v\<rparr>\<rparr>"

definition handleSaveProfile :: "State \<Rightarrow> State" where
  "handleSaveProfile s =
     s\<lparr>db := saveUserProfile (userProfile s) (db s), isEditingProfile := False\<rparr>"

definition handleDeleteProfile :: "State \<Rightarrow> State" where
  "handleDeleteProfile s =
     s\<lparr>userProfile := emptyProfile, db := saveUserProfile emptyProfile (db s),
       isEditingProfile := False\<rparr>"

definition toggleYearExpansion :: "string \<Rightarrow> State \<Rightarrow> State" where
  "toggleYearExpansion yearId s =
     s\<lparr>expandedYears := (if yearId \<in> expandedYears s then expandedYears s - {yearId}
                          else insert yearId (expandedYears s))\<rparr>"

section \<open>Reachable states\<close>

text \<open>
  The states that the user interface can produce: a first start on an empty database, a
  later start on the database as the last session left it, and the handlers, with the
  arguments that the rendered controls pass. The name and grade controls and the credits
  input are the only callers of \<^verbatim>\<open>updateCourse\<close>; the grade control offers the keys of the
  grade table.
\<close>

definition emptyDatabase :: Database where
  "emptyDatabase = \<lparr>years_store = [], profile_store = Map.empty\<rparr>"

inductive reachable :: "State \<Rightarrow> bool" where
  first_start: "reachable (loadData emptyDatabase)"
| restart: "reachable s \<Longrightarrow> reachable (loadData (db s))"
| add_year: "reachable s \<Longrightarrow> reachable (addYear s)"
| delete_year: "reachable s \<Longrightarrow> reachable (deleteYear yearId s)"
| add_semester: "reachable s \<Longrightarrow> reachable (addSemester yearId s)"
| delete_semester: "reachable s \<Longrightarrow> reachable (deleteSemester yearId semesterId s)"
| add_course: "reachable s \<Longrightarrow> reachable (addCourse yearId semesterId s)"
| update_name:
    "reachable s \<Longrightarrow> reachable (updateCourse yearId semesterId courseId (SetName v) s)"
| update_grade:
    "reachable s \<Longrightarrow> g \<in> fst ` set gradePoints
     \<Longrightarrow> reachable (updateCourse yearId semesterId courseId (SetGrade g) s)"
| update_credits:
    "reachable s
     \<Longrightarrow> reachable (updateCourse yearId semesterId courseId (SetCredits (credits_input v)) s)"
| remove_course: "reachable s \<Longrightarrow> reachable (removeCourse yearId semesterId courseId s)"
| toggle_year: "reachable s \<Longrightarrow> reachable (toggleYearExpansion yearId s)"
| edit_profile: "reachable s \<Longrightarrow> reachable (s\<lparr>isEditingProfile := True\<rparr>)"
| change_profile: "reachable s \<Longrightarrow> reachable (handleProfileChange field v s)"
| save_profile: "reachable s \<Longrightarrow> reachable (handleSaveProfile s)"
| delete_profile: "reachable s \<Longrightarrow> reachable (handleDeleteProfile s)"

datatype add_operation = AddYear | AddSemester string | AddCourse string string

fun apply_add :: "State \<Rightarrow> add_operation \<Rightarrow> State" where
  "apply_add s AddYear = addYear s"
| "apply_add s (AddSemester yearId) = addSemester yearId s"
| "apply_add s (AddCourse yearId semesterId) = addCourse yearId semesterId s"

definition counter_after :: "nat \<Rightarrow> int option \<Rightarrow> int option" where
  \<comment> \<open>the counter after \<open>j\<close> calls of \<^verbatim>\<open>generateId\<close>\<close>
  "counter_after j n = ((fst \<circ> generateId) ^^ j) n"

section \<open>The GPA formula of the specification\<close>





section \<open>The invariant of the id generator\<close>

text \<open>
  Every id of the tree begins with the decimal digits of a counter value: \<^verbatim>\<open>parseInt\<close> reads
  that value back. The ids whose value lies in a range:
\<close>

definition id_numbers :: "int \<Rightarrow> int \<Rightarrow> string set" where
  "id_numbers lo hi = {x. \<exists>k. parseInt x = Some k \<and> lo < k \<and> k \<le> hi}"

text \<open>
  The invariant of the reachable states: the counter is a positive integer, the ids of the
  tree are pairwise distinct and their values lie between 1 and the counter, and the
  \<^verbatim>\<open>years\<close> store holds the years of the list.
\<close>

definition tree_inv :: "State \<Rightarrow> bool" where
  "tree_inv s =
     (\<exists>n. nextId s = Some n \<and> 0 < n \<and> distinct (tree_ids (years s))
          \<and> set (tree_ids (years s)) \<subseteq> id_numbers 0 n
          \<and> mset (years_store (db s)) = mset (years s))"

section \<open>Properties of the number model\<close>

lemma ilog2_bounds:
  assumes "0 < x"
  shows "2 powi ilog2 x \<le> x \<and> x < 2 powi (ilog2 x + 1)"
proof -
  obtain a b where q: "quotient_of x = (a, b)" by (cases "quotient_of x")
  have b: "0 < b" using q by (rule quotient_of_denom_pos)
  have x: "x = of_int a / of_int b" using q by (rule quotient_of_div)
  have a: "0 < a" using assms b x by (simp add: zero_less_divide_iff)
  define la lb where "la = bitlen a" and "lb = bitlen b"
  have la1: "1 \<le> la" and lb1: "1 \<le> lb"
    using a b bitlen_eq_zero_iff[of a] bitlen_eq_zero_iff[of b] bitlen_nonneg[of a] bitlen_nonneg[of b]
    by (auto simp: la_def lb_def)
  have "2 ^ nat (la - 1) \<le> a" "a < 2 ^ nat la" "2 ^ nat (lb - 1) \<le> b" "b < 2 ^ nat lb"
    using bitlen_bounds[OF a] bitlen_bounds[OF b] by (auto simp: la_def lb_def)
  then have "(2::rat) ^ nat (la - 1) \<le> of_int a" "of_int a < (2::rat) ^ nat la"
    "(2::rat) ^ nat (lb - 1) \<le> of_int b" "of_int b < (2::rat) ^ nat lb"
    by (metis of_int_le_iff of_int_less_iff of_int_numeral of_int_power)+
  then have ra: "(2::rat) powi (la - 1) \<le> of_int a" "of_int a < (2::rat) powi la"
    and rb: "(2::rat) powi (lb - 1) \<le> of_int b" "of_int b < (2::rat) powi lb"
    using la1 lb1 by (simp_all add: power_int_def)
  have bpos: "(0::rat) < of_int b" using b by simp
  have p: "\<And>k. (0::rat) < 2 powi k" by (simp add: zero_less_power_int)
  have up: "x < 2 powi (la - lb + 1)"
  proof -
    have "x < 2 powi la / of_int b"
      unfolding x using ra(2) bpos by (simp add: divide_strict_right_mono)
    also have "\<dots> \<le> 2 powi la / 2 powi (lb - 1)"
      using rb(1) p by (simp add: frac_le)
    also have "\<dots> = 2 powi (la - lb + 1)"
      by (simp add: power_int_diff power_int_add)
    finally show ?thesis .
  qed
  have lo: "2 powi (la - lb - 1) \<le> x"
  proof -
    have "2 powi (la - lb - 1) = 2 powi (la - 1) / (2::rat) powi lb"
      by (simp add: power_int_diff power_int_add)
    also have "\<dots> \<le> of_int a / 2 powi lb"
      using ra(1) p by (simp add: divide_right_mono)
    also have "\<dots> \<le> of_int a / of_int b"
      using rb(2) bpos a by (simp add: frac_le)
    finally show ?thesis unfolding x .
  qed
  have il: "ilog2 x = (if 2 powi (la - lb) \<le> x then la - lb else la - lb - 1)"
    by (simp add: ilog2_def q la_def lb_def Let_def)
  show ?thesis using up lo by (auto simp: il)
qed

lemma ilog2_unique:
  assumes "2 powi e \<le> x" "x < 2 powi (e + 1)"
  shows "ilog2 x = e"
proof -
  have "(0::rat) < 2 powi e" by (simp add: zero_less_power_int)
  then have x: "0 < x" using assms(1) by (rule less_le_trans)
  note b = ilog2_bounds[OF x]
  have "(2::rat) powi e < 2 powi (ilog2 x + 1)" using assms(1) b by simp
  then have 1: "e < ilog2 x + 1"
    using power_int_increasing[of "ilog2 x + 1" e "2::rat"] by (cases "e < ilog2 x + 1") auto
  have "(2::rat) powi ilog2 x < 2 powi (e + 1)" using assms(2) b by simp
  then have 2: "ilog2 x < e + 1"
    using power_int_increasing[of "e + 1" "ilog2 x" "2::rat"] by (cases "ilog2 x < e + 1") auto
  show ?thesis using 1 2 by simp
qed

lemma round_half_even_nearest:
  assumes "\<bar>y - of_int n\<bar> < 1 / 2"
  shows "round_half_even y = n"
proof -
  have "\<lfloor>y\<rfloor> = n \<or> \<lfloor>y\<rfloor> = n - 1" using assms by linarith
  then show ?thesis
  proof
    assume f: "\<lfloor>y\<rfloor> = n"
    then have "y - of_int n < 1 / 2" using assms by linarith
    then show ?thesis by (simp add: round_half_even_def f)
  next
    assume f: "\<lfloor>y\<rfloor> = n - 1"
    have "1 / 2 < y - (of_int n - 1)" using assms by linarith
    then have "1 / 2 < y - of_int (n - 1)" by simp
    then show ?thesis by (simp add: round_half_even_def f)
  qed
qed

lemma round_half_even_tie:
  assumes "y = of_int n + 1 / 2"
  shows "round_half_even y = (if even n then n else n + 1)"
proof -
  have f: "\<lfloor>y\<rfloor> = n" unfolding assms by linarith
  show ?thesis by (simp add: round_half_even_def f) (simp add: assms)
qed

lemma to_double_normal:
  assumes "2 powi e \<le> \<bar>x\<bar>" "\<bar>x\<bar> < 2 powi (e + 1)" "- 1022 \<le> e"
    and "round_half_even (x / 2 powi (e - 52)) = n"
    and "\<bar>of_int n * 2 powi (e - 52)\<bar> < (2::rat) powi 1024"
  shows "to_double x = Fin (of_int n * 2 powi (e - 52))"
proof -
  have "(0::rat) < 2 powi e" by (simp add: zero_less_power_int)
  then have "0 < \<bar>x\<bar>" using assms(1) by (rule less_le_trans)
  then have "x \<noteq> 0" by simp
  moreover have "ilog2 \<bar>x\<bar> = e" using assms(1,2) by (rule ilog2_unique)
  ultimately show ?thesis using assms(3,4,5)
    by (simp add: to_double_def Let_def max_def del: power_int_numeral)
qed

text \<open>Integers below \<open>2\<^sup>5\<^sup>3\<close> are binary64 values.\<close>

lemma to_double_of_int:
  assumes "\<bar>k\<bar> < 2 ^ 53"
  shows "to_double (of_int k) = Fin (of_int k)"
proof (cases "k = 0")
  case True
  then show ?thesis by (simp add: to_double_def)
next
  case False
  define x :: rat where "x = of_int k"
  have xpos: "0 < \<bar>x\<bar>" using False by (simp add: x_def)
  define e where "e = ilog2 \<bar>x\<bar>"
  have b: "2 powi e \<le> \<bar>x\<bar>" "\<bar>x\<bar> < 2 powi (e + 1)"
    using ilog2_bounds[OF xpos] by (simp_all add: e_def)
  have "1 \<le> \<bar>k\<bar>" using False by simp
  then have "(of_int 1 :: rat) \<le> of_int \<bar>k\<bar>" by (simp only: of_int_le_iff)
  then have "1 \<le> \<bar>x\<bar>" by (simp add: x_def)
  then have "(2::rat) powi 0 < 2 powi (e + 1)" using b(2) by simp
  then have e0: "0 \<le> e"
    using power_int_increasing[of "e + 1" 0 "2::rat"] by (cases "0 < e + 1") auto
  have "(of_int \<bar>k\<bar> :: rat) < of_int (2 ^ 53)" using assms by (simp only: of_int_less_iff)
  then have small: "\<bar>x\<bar> < 2 powi 53" by (simp add: x_def)
  then have "(2::rat) powi e < 2 powi 53" using b(1) by simp
  then have e52: "e \<le> 52"
    using power_int_increasing[of 53 e "2::rat"] by (cases "e < 53") auto
  have q: "x / 2 powi (e - 52) = of_int (k * 2 ^ nat (52 - e))"
    using e52 by (simp add: x_def power_int_def field_simps)
  have r: "round_half_even (x / 2 powi (e - 52)) = k * 2 ^ nat (52 - e)"
    unfolding q by (rule round_half_even_nearest) simp
  have scaled: "of_int (k * 2 ^ nat (52 - e)) * 2 powi (e - 52) = x"
    using e52 by (simp add: x_def power_int_def field_simps)
  have "to_double x = Fin (of_int (k * 2 ^ nat (52 - e)) * 2 powi (e - 52))"
  proof (rule to_double_normal[OF b _ r])
    show "- 1022 \<le> e" using e0 by simp
    have "\<bar>x\<bar> < 2 powi 1024"
      using small power_int_increasing[of 53 1024 "2::rat"] by simp
    then show "\<bar>of_int (k * 2 ^ nat (52 - e)) * 2 powi (e - 52)\<bar> < (2::rat) powi 1024"
      unfolding scaled .
  qed
  then show ?thesis unfolding scaled by (simp add: x_def)
qed

lemma to_double_small_int:
  "to_double 0 = Fin 0" "to_double 1 = Fin 1" "to_double 2 = Fin 2" "to_double 3 = Fin 3"
  "to_double 4 = Fin 4" "to_double 7 = Fin 7" "to_double 12 = Fin 12"
  using to_double_of_int[of 0] to_double_of_int[of 1] to_double_of_int[of 2]
    to_double_of_int[of 3] to_double_of_int[of 4] to_double_of_int[of 7] to_double_of_int[of 12]
  by simp_all


section \<open>The GPA engine\<close>





text \<open>The arithmetic of the example \<open>[{A, 3}, {B+, 4}]\<close>, step by step.\<close>

lemma double_33_10: "to_double (33 / 10) = Fin (3715469692580659 / 1125899906842624)"
  using to_double_normal[of 1 "33 / 10" 7430939385161318]
  by (simp add: round_half_even_nearest)

lemma double_132_10:
  "to_double (3715469692580659 / 281474976710656) = Fin (3715469692580659 / 281474976710656)"
  using to_double_normal[of 3 "3715469692580659 / 281474976710656" 7430939385161318]
  by (simp add: round_half_even_nearest)

lemma double_252_10:
  "to_double (7093169413108531 / 281474976710656) = Fin (7093169413108531 / 281474976710656)"
  using to_double_normal[of 4 "7093169413108531 / 281474976710656" 7093169413108531]
  by (simp add: round_half_even_nearest)

lemma double_36_quotient:
  "to_double (7093169413108531 / 1970324836974592) = Fin (8106479329266893 / 2251799813685248)"
  using to_double_normal[of 1 "7093169413108531 / 1970324836974592" 8106479329266893]
  by (simp add: round_half_even_nearest)

lemma double_36: "to_double (18 / 5) = Fin (8106479329266893 / 2251799813685248)"
  using to_double_normal[of 1 "18 / 5" 8106479329266893]
  by (simp add: round_half_even_nearest)

lemma double_363: "to_double (363 / 100) = Fin (4087016661838725 / 1125899906842624)"
  using to_double_normal[of 1 "363 / 100" 8174033323677450]
  by (simp add: round_half_even_nearest)

lemma toFixed2_36:
  "toFixed2 (Fin (8106479329266893 / 2251799813685248)) = TextDecimal (18 / 5)"
proof -
  have "\<lfloor>(8106479329266893 / 2251799813685248 :: rat) * 100 + 1 / 2\<rfloor> = 360"
    by (simp add: floor_eq_iff)
  then show ?thesis by simp
qed

lemma gradePoint_A: "gradePoint ''A'' = Fin 4"
  by (simp add: gradePoint_def gradePoints_def to_double_small_int)

lemma gradePoint_B_plus: "gradePoint ''B+'' = Fin (3715469692580659 / 1125899906842624)"
  by (simp add: gradePoint_def gradePoints_def double_33_10)

lemma calculateGPA_A3_Bplus4:
  "calculateGPA [\<lparr>course_id = i1, course_name = n1, grade = ''A'', credits = Fin 3\<rparr>,
                 \<lparr>course_id = i2, course_name = n2, grade = ''B+'', credits = Fin 4\<rparr>]
   = Fin (8106479329266893 / 2251799813685248)"
  by (simp add: calculateGPA_def gradePoint_A gradePoint_B_plus to_double_small_int
       double_132_10 double_252_10 double_36_quotient toFixed2_36 double_36
       del: toFixed2.simps)


text \<open>
  Claim C5, as the specification states it: for \<open>[{A, 3}, {B+, 4}]\<close> the GPA is 3.63. The
  weighted sum is \<open>4.0 \<cdot> 3 + 3.3 \<cdot> 4 = 25.2\<close> and \<open>25.2 / 7 = 3.6\<close>: \<^verbatim>\<open>calculateGPA\<close> does
  not return the number 3.63.
\<close>

theorem calculateGPA_example_not_363:
  "calculateGPA [\<lparr>course_id = ''1'', course_name = '''', grade = ''A'', credits = Fin 3\<rparr>,
                 \<lparr>course_id = ''2'', course_name = '''', grade = ''B+'', credits = Fin 4\<rparr>]
   \<noteq> to_double (363 / 100)"
  by (simp add: calculateGPA_A3_Bplus4 double_363)

text \<open>
  Claim C5, amended: for the list \<open>[{A, 3}, {B+, 4}]\<close>, whatever the ids and names of the
  two courses, \<^verbatim>\<open>calculateGPA\<close> returns the number 3.6.
\<close>

theorem calculateGPA_example_36:
  "calculateGPA [\<lparr>course_id = i1, course_name = n1, grade = ''A'', credits = Fin 3\<rparr>,
                 \<lparr>course_id = i2, course_name = n2, grade = ''B+'', credits = Fin 4\<rparr>]
   = to_double (36 / 10)"
  by (simp add: calculateGPA_A3_Bplus4 double_36)

text \<open>
  The rounding is that of the binary64 quotient. For \<open>[{A-, 1}, {B, 3}]\<close> the quotient of the
  exact grade points is \<open>(3.7 + 9) / 4 = 3.175\<close>; the binary64 sum \<open>3.7 + 9\<close> lies below
  \<open>12.7\<close>, the quotient below \<open>3.175\<close>, and \<^verbatim>\<open>calculateGPA\<close> returns 3.17.
\<close>

lemma double_37_10: "to_double (37 / 10) = Fin (4165829655317709 / 1125899906842624)"
  using to_double_normal[of 1 "37 / 10" 8331659310635418]
  by (simp add: round_half_even_nearest)

lemma double_37_10_again:
  "to_double (4165829655317709 / 1125899906842624) = Fin (4165829655317709 / 1125899906842624)"
  using to_double_normal[of 1 "4165829655317709 / 1125899906842624" 8331659310635418]
  by (simp add: round_half_even_nearest)

lemma double_127_10_tie:
  "to_double (14298928816901325 / 1125899906842624) = Fin (3574732204225331 / 281474976710656)"
proof -
  have "round_half_even (14298928816901325 / 1125899906842624 / 2 powi (3 - 52))
        = 7149464408450662"
    using round_half_even_tie[of "14298928816901325 / 2" 7149464408450662] by simp
  then show ?thesis
    using to_double_normal[of 3 "14298928816901325 / 1125899906842624" 7149464408450662]
    by simp
qed

lemma double_3175_quotient:
  "to_double (3574732204225331 / 1125899906842624) = Fin (3574732204225331 / 1125899906842624)"
  using to_double_normal[of 1 "3574732204225331 / 1125899906842624" 7149464408450662]
  by (simp add: round_half_even_nearest)

lemma double_317: "to_double (317 / 100) = Fin (1784551352345559 / 562949953421312)"
  using to_double_normal[of 1 "317 / 100" 7138205409382236]
  by (simp add: round_half_even_nearest)

lemma toFixed2_3175:
  "toFixed2 (Fin (3574732204225331 / 1125899906842624)) = TextDecimal (317 / 100)"
proof -
  have "\<lfloor>(3574732204225331 / 1125899906842624 :: rat) * 100 + 1 / 2\<rfloor> = 317"
    by (simp add: floor_eq_iff)
  then show ?thesis by simp
qed

lemma gradePoint_A_minus: "gradePoint ''A-'' = Fin (4165829655317709 / 1125899906842624)"
  by (simp add: gradePoint_def gradePoints_def double_37_10)

lemma gradePoint_B: "gradePoint ''B'' = Fin 3"
  by (simp add: gradePoint_def gradePoints_def to_double_small_int)

lemma to_double_9: "to_double 9 = Fin 9"
  using to_double_of_int[of 9] by simp

lemma calculateGPA_tie_example:
  "calculateGPA [\<lparr>course_id = i1, course_name = n1, grade = ''A-'', credits = Fin 1\<rparr>,
                 \<lparr>course_id = i2, course_name = n2, grade = ''B'', credits = Fin 3\<rparr>]
   = to_double (317 / 100)
   \<and> (37 / 10 * 1 + 3 * 3) / (1 + 3) = (3175 / 1000 :: rat)"
  by (simp add: calculateGPA_def gradePoint_A_minus gradePoint_B to_double_small_int to_double_9
       double_37_10_again double_127_10_tie double_3175_quotient toFixed2_3175 double_317
       del: toFixed2.simps)

section \<open>The first start\<close>

lemma generateId_Some: "generateId (Some m) = (Some (m + 1), toString (Some (m + 1)))"
  by (simp add: generateId_def Let_def)

lemma digit_char_values:
  "digit_char 0 = CHR ''0''" "digit_char 1 = CHR ''1''" "digit_char 2 = CHR ''2''"
  "digit_char 3 = CHR ''3''" "digit_char 4 = CHR ''4''" "digit_char 5 = CHR ''5''"
  "digit_char 6 = CHR ''6''" "digit_char 7 = CHR ''7''" "digit_char 8 = CHR ''8''"
  "digit_char 9 = CHR ''9''"
  by code_simp+

lemma show_nat_digit: "n < 10 \<Longrightarrow> show_nat n = [digit_char n]"
  by (simp add: show_nat.simps)

lemma toString_2: "toString (Some 2) = ''2''"
  by (simp add: toString_def show_nat_digit digit_char_values)

lemma saveData_initialYear:
  "saveData [initialYear] d = d\<lparr>years_store := [initialYear]\<rparr>"
  by (simp add: saveData_def)

lemma first_start_state:
  "loadData emptyDatabase =
     \<lparr>years = [initialYear], expandedYears = {''1''}, nextId = Some 1,
      userProfile = emptyProfile, isEditingProfile = False,
      db = \<lparr>years_store = [initialYear], profile_store = Map.empty\<rparr>\<rparr>"
  by (simp add: loadData_def emptyDatabase_def saveData_initialYear Let_def)

lemma tree_ids_initialYear: "tree_ids [initialYear] = [''1'', ''1-1'', ''1-2'']"
  by (simp add: tree_ids_def year_ids_def semester_ids_def initialYear_def)

section \<open>Profile persistence\<close>

lemma loadData_userProfile:
  "userProfile (loadData d)
   = (case profile_store d ''user'' of None \<Rightarrow> emptyProfile | Some p \<Rightarrow> p)"
  by (simp add: loadData_def Let_def split: option.split)

text \<open>
  Claim C3. Whatever the profile \<open>p\<close> that the Save action stores, the next start of the
  application loads a profile identical to \<open>p\<close>; and after the Delete action the next start
  loads the profile whose four fields are empty strings.
\<close>

theorem profile_round_trip:
  "userProfile (loadData (db (handleSaveProfile (s\<lparr>userProfile := p\<rparr>)))) = p
   \<and> userProfile (loadData (db (handleDeleteProfile s)))
       = \<lparr>name = '''', indexNumber = '''', university = '''', photo = ''''\<rparr>"
  by (simp add: loadData_userProfile handleSaveProfile_def handleDeleteProfile_def
        saveUserProfile_def emptyProfile_def)

theorem profile_round_trip_witness:
  "userProfile (loadData (db (handleSaveProfile ((loadData emptyDatabase)
      \<lparr>userProfile := \<lparr>name = ''Ada'', indexNumber = ''17'', university = ''Colombo'',
                        photo = ''data:image/png;base64,AAAA''\<rparr>\<rparr>))))
   = \<lparr>name = ''Ada'', indexNumber = ''17'', university = ''Colombo'',
      photo = ''data:image/png;base64,AAAA''\<rparr>"
  using profile_round_trip[where s = "loadData emptyDatabase"
      and p = "\<lparr>name = ''Ada'', indexNumber = ''17'', university = ''Colombo'',
        photo = ''data:image/png;base64,AAAA''\<rparr>"]
  by blast

section \<open>Saving the year list\<close>

lemma store_add_fresh:
  assumes "year_id y \<notin> year_id ` set rs"
  shows "\<exists>rs'. store_add y rs = Inr rs' \<and> mset rs' = add_mset y (mset rs)"
  using assms by (induction rs) auto

lemma store_add_mset:
  "store_add y rs = Inr rs' \<Longrightarrow> mset rs' = add_mset y (mset rs)"
  by (induction rs arbitrary: rs') (auto split: if_splits sum.splits)

lemma store_add_sorted:
  assumes "store_add y rs = Inr rs'" "sorted (map year_id rs)"
  shows "sorted (map year_id rs')"
  using assms
proof (induction rs arbitrary: rs')
  case Nil
  then show ?case by auto
next
  case (Cons r rs)
  show ?case
  proof (cases "year_id y < year_id r")
    case True
    then have "rs' = y # r # rs" using Cons.prems(1) by (auto split: if_splits)
    moreover have "\<forall>x \<in> set (r # rs). year_id y \<le> year_id x"
      using True Cons.prems(2) by (auto intro: less_imp_le order_trans[OF less_imp_le])
    ultimately show ?thesis using Cons.prems(2) by simp
  next
    case False
    then obtain t where t: "store_add y rs = Inr t" "rs' = r # t"
      using Cons.prems by (auto split: if_splits sum.splits)
    have "sorted (map year_id t)" using Cons.IH[OF t(1)] Cons.prems(2) by simp
    moreover have "set t = insert y (set rs)"
      using store_add_mset[OF t(1)] by (metis set_mset_add_mset_insert set_mset_mset)
    moreover have "year_id r \<le> year_id y" using False by simp
    ultimately show ?thesis using Cons.prems(2) t(2) by auto
  qed
qed

lemma add_all_distinct:
  assumes "distinct (map year_id data)" "year_id ` set data \<inter> year_id ` set rs = {}"
  shows "\<exists>rs'. add_all data rs = Inr rs' \<and> mset rs' = mset data + mset rs"
  using assms
proof (induction data arbitrary: rs)
  case Nil
  then show ?case by simp
next
  case (Cons y data)
  have "year_id y \<notin> year_id ` set rs" using Cons.prems(2) by auto
  then obtain t where t: "store_add y rs = Inr t" "mset t = add_mset y (mset rs)"
    using store_add_fresh by blast
  have st: "set t = insert y (set rs)"
    using t(2) by (metis set_mset_add_mset_insert set_mset_mset)
  have "year_id ` set data \<inter> year_id ` set t = {}"
    using Cons.prems st by auto
  then obtain rs' where "add_all data t = Inr rs'" "mset rs' = mset data + mset t"
    using Cons.IH[of t] Cons.prems(1) by auto
  then show ?case using t by simp
qed

lemma add_all_sorted:
  "add_all data rs = Inr rs' \<Longrightarrow> sorted (map year_id rs) \<Longrightarrow> sorted (map year_id rs')"
  by (induction data arbitrary: rs) (auto split: sum.splits dest: store_add_sorted)

lemma saveData_distinct:
  assumes "distinct (map year_id data)"
  shows "mset (years_store (saveData data d)) = mset data"
proof -
  obtain rs where rs: "add_all data [] = Inr rs" "mset rs = mset data"
    using add_all_distinct[OF assms, of "[]"] by auto
  then show ?thesis by (simp add: saveData_def)
qed

lemma saveData_profile_store: "profile_store (saveData data d) = profile_store d"
  by (simp add: saveData_def split: sum.split)

text \<open>
  Outside the data model: when two years of the list share an id, the second \<^verbatim>\<open>add\<close> is
  refused, the transaction is aborted, and the store keeps what it held.
\<close>

lemma saveData_duplicate_key:
  "year_id y = year_id z \<Longrightarrow> saveData [y, z] d = d"
  by (simp add: saveData_def)

section \<open>Deleting\<close>

lemma year_id_in_tree_ids: "y \<in> set ys \<Longrightarrow> year_id y \<in> set (tree_ids ys)"
  by (auto simp: tree_ids_def year_ids_def)

lemma semester_id_in_tree_ids:
  "y \<in> set ys \<Longrightarrow> sem \<in> set (semesters y) \<Longrightarrow> semester_id sem \<in> set (tree_ids ys)"
  by (auto simp: tree_ids_def year_ids_def semester_ids_def)

lemma course_id_in_tree_ids:
  "y \<in> set ys \<Longrightarrow> sem \<in> set (semesters y) \<Longrightarrow> c \<in> set (courses sem)
   \<Longrightarrow> course_id c \<in> set (tree_ids ys)"
  by (auto simp: tree_ids_def year_ids_def semester_ids_def)

lemma map_unchanged: "(\<And>x. x \<in> set xs \<Longrightarrow> f x = x) \<Longrightarrow> map f xs = xs"
  by (induction xs) auto

lemma filter_unchanged: "(\<And>x. x \<in> set xs \<Longrightarrow> P x) \<Longrightarrow> filter P xs = xs"
  by (induction xs) auto

lemma deleteYear_unknown: "x \<notin> set (tree_ids ys) \<Longrightarrow> deleteYear_years x ys = ys"
  unfolding deleteYear_years_def by (rule filter_unchanged) (auto dest: year_id_in_tree_ids)

lemma deleteSemester_unknown_year:
  "x \<notin> set (tree_ids ys) \<Longrightarrow> deleteSemester_years x sid ys = ys"
  unfolding deleteSemester_years_def by (rule map_unchanged) (auto dest: year_id_in_tree_ids)

lemma deleteSemester_unknown_semester:
  "x \<notin> set (tree_ids ys) \<Longrightarrow> deleteSemester_years yid x ys = ys"
  unfolding deleteSemester_years_def
proof (rule map_unchanged)
  fix y assume a: "x \<notin> set (tree_ids ys)" "y \<in> set ys"
  have "filter (\<lambda>semester. semester_id semester \<noteq> x) (semesters y) = semesters y"
    by (rule filter_unchanged) (use a in \<open>auto dest: semester_id_in_tree_ids\<close>)
  then show "(if year_id y = yid
        then y\<lparr>semesters := filter (\<lambda>semester. semester_id semester \<noteq> x) (semesters y)\<rparr>
        else y) = y" by simp
qed

lemma removeCourse_unknown_year:
  "x \<notin> set (tree_ids ys) \<Longrightarrow> removeCourse_years x sid cid ys = ys"
  unfolding removeCourse_years_def by (rule map_unchanged) (auto dest: year_id_in_tree_ids)

lemma removeCourse_unknown_semester:
  "x \<notin> set (tree_ids ys) \<Longrightarrow> removeCourse_years yid x cid ys = ys"
  unfolding removeCourse_years_def
proof (rule map_unchanged)
  fix y assume a: "x \<notin> set (tree_ids ys)" "y \<in> set ys"
  have "map (\<lambda>semester. if semester_id semester = x
          then semester\<lparr>courses := filter (\<lambda>course. course_id course \<noteq> cid) (courses semester)\<rparr>
          else semester) (semesters y) = semesters y"
    by (rule map_unchanged) (use a in \<open>auto dest: semester_id_in_tree_ids\<close>)
  then show "(if year_id y = yid
        then y\<lparr>semesters := map (\<lambda>semester. if semester_id semester = x
          then semester\<lparr>courses := filter (\<lambda>course. course_id course \<noteq> cid) (courses semester)\<rparr>
          else semester) (semesters y)\<rparr>
        else y) = y" by simp
qed

lemma removeCourse_unknown_course:
  "x \<notin> set (tree_ids ys) \<Longrightarrow> removeCourse_years yid sid x ys = ys"
  unfolding removeCourse_years_def
proof (rule map_unchanged)
  fix y assume a: "x \<notin> set (tree_ids ys)" "y \<in> set ys"
  have "map (\<lambda>semester. if semester_id semester = sid
          then semester\<lparr>courses := filter (\<lambda>course. course_id course \<noteq> x) (courses semester)\<rparr>
          else semester) (semesters y) = semesters y"
  proof (rule map_unchanged)
    fix sem assume b: "sem \<in> set (semesters y)"
    have "filter (\<lambda>course. course_id course \<noteq> x) (courses sem) = courses sem"
      by (rule filter_unchanged) (use a b in \<open>auto dest: course_id_in_tree_ids\<close>)
    then show "(if semester_id sem = sid
          then sem\<lparr>courses := filter (\<lambda>course. course_id course \<noteq> x) (courses sem)\<rparr>
          else sem) = sem" by simp
  qed
  then show "(if year_id y = yid
        then y\<lparr>semesters := map (\<lambda>semester. if semester_id semester = sid
          then semester\<lparr>courses := filter (\<lambda>course. course_id course \<noteq> x) (courses semester)\<rparr>
          else semester) (semesters y)\<rparr>
        else y) = y" by simp
qed

text \<open>
  Claim C9. An id that occurs nowhere in the year tree makes \<^verbatim>\<open>deleteYear\<close>,
  \<^verbatim>\<open>deleteSemester\<close> and \<^verbatim>\<open>removeCourse\<close> leave the year list as it is, in whichever argument
  the id is passed and whatever the other arguments are. The handlers are total functions:
  no input makes them fail.
\<close>

theorem delete_unknown_id_noop:
  assumes "x \<notin> set (tree_ids (years s))"
  shows "years (deleteYear x s) = years s
       \<and> years (deleteSemester x semesterId s) = years s
       \<and> years (deleteSemester yearId x s) = years s
       \<and> years (removeCourse x semesterId courseId s) = years s
       \<and> years (removeCourse yearId x courseId s) = years s
       \<and> years (removeCourse yearId semesterId x s) = years s"
  using assms
  by (simp add: deleteYear_def deleteSemester_def removeCourse_def Let_def
        deleteYear_unknown deleteSemester_unknown_year deleteSemester_unknown_semester
        removeCourse_unknown_year removeCourse_unknown_semester removeCourse_unknown_course)

theorem delete_unknown_id_noop_witness:
  "''42'' \<notin> set (tree_ids (years (loadData emptyDatabase)))
   \<and> years (deleteYear ''42'' (loadData emptyDatabase)) = [initialYear]
   \<and> years (deleteSemester ''1'' ''42'' (loadData emptyDatabase)) = [initialYear]
   \<and> years (removeCourse ''1'' ''1-1'' ''42'' (loadData emptyDatabase)) = [initialYear]"
proof -
  have h: "''42'' \<notin> set (tree_ids (years (loadData emptyDatabase)))"
    by (simp add: first_start_state tree_ids_initialYear)
  have y: "years (loadData emptyDatabase) = [initialYear]"
    by (simp add: first_start_state)
  show ?thesis
    using h delete_unknown_id_noop[OF h, where semesterId = "''1-1''" and yearId = "''1''"
        and courseId = "''42''"]
    unfolding y by simp
qed

lemma distinct_concat_disjoint:
  assumes "distinct (concat (map f xs))" "a \<in> set xs" "b \<in> set xs" "f a \<noteq> f b"
  shows "set (f a) \<inter> set (f b) = {}"
  using assms by (simp add: distinct_concat_iff)

text \<open>
  Claim C8. For a year id of the list, \<^verbatim>\<open>deleteYear\<close> removes the year of that id, and with
  it its semesters and courses: the list becomes shorter, no year of that id is left, every
  other year stays, unchanged and in its place, no id of the removed subtree is left in a
  tree with distinct ids, and the id is taken out of the set of expanded years.
\<close>

theorem deleteYear_removes:
  assumes "yearId \<in> year_id ` set (years s)"
  shows "years (deleteYear yearId s) = filter (\<lambda>y. year_id y \<noteq> yearId) (years s)
     \<and> yearId \<notin> year_id ` set (years (deleteYear yearId s))
     \<and> (\<forall>y \<in> set (years s). year_id y \<noteq> yearId \<longrightarrow> y \<in> set (years (deleteYear yearId s)))
     \<and> length (years (deleteYear yearId s)) < length (years s)
     \<and> (distinct (tree_ids (years s)) \<longrightarrow>
          (\<forall>y \<in> set (years s). year_id y = yearId \<longrightarrow>
             set (year_ids y) \<inter> set (tree_ids (years (deleteYear yearId s))) = {}))
     \<and> expandedYears (deleteYear yearId s) = expandedYears s - {yearId}
     \<and> yearId \<notin> expandedYears (deleteYear yearId s)"
proof -
  let ?ys' = "filter (\<lambda>y. year_id y \<noteq> yearId) (years s)"
  have 1: "years (deleteYear yearId s) = ?ys'"
    by (simp add: deleteYear_def deleteYear_years_def Let_def)
  have 4: "length ?ys' < length (years s)"
    using assms by (auto intro!: length_filter_less)
  have 5: "set (year_ids y) \<inter> set (tree_ids ?ys') = {}"
    if d: "distinct (tree_ids (years s))" and y: "y \<in> set (years s)" "year_id y = yearId" for y
  proof -
    have "set (year_ids y) \<inter> set (year_ids z) = {}" if z: "z \<in> set ?ys'" for z
    proof -
      have "year_ids y \<noteq> year_ids z" using y z by (auto simp: year_ids_def)
      moreover have "z \<in> set (years s)" using z by simp
      ultimately show ?thesis
        using distinct_concat_disjoint[of year_ids "years s" y z] d y(1)
        by (simp add: tree_ids_def)
    qed
    then show ?thesis unfolding tree_ids_def by auto
  qed
  have 6: "expandedYears (deleteYear yearId s) = expandedYears s - {yearId}"
    by (simp add: deleteYear_def Let_def)
  show ?thesis unfolding 1 6 using 4 5 by auto
qed

theorem deleteYear_removes_witness:
  "''1'' \<in> year_id ` set (years (loadData emptyDatabase))
   \<and> years (deleteYear ''1'' (loadData emptyDatabase)) = []
   \<and> ''1'' \<notin> expandedYears (deleteYear ''1'' (loadData emptyDatabase))"
proof -
  have h: "''1'' \<in> year_id ` set (years (loadData emptyDatabase))"
    by (simp add: first_start_state initialYear_def)
  have y: "years (loadData emptyDatabase) = [initialYear]"
    by (simp add: first_start_state)
  have i: "year_id initialYear = ''1''" by (simp add: initialYear_def)
  have "years (deleteYear ''1'' (loadData emptyDatabase)) = []"
    using deleteYear_removes[OF h] unfolding y by (simp add: i)
  moreover have "''1'' \<notin> expandedYears (deleteYear ''1'' (loadData emptyDatabase))"
    using deleteYear_removes[OF h] by blast
  ultimately show ?thesis using h by blast
qed

section \<open>Adding a semester\<close>

lemma addSemester_years_length: "length (fst (addSemester_years yid ys n)) = length ys"
  by (induction ys arbitrary: n) (auto simp: Let_def case_prod_beta)

lemma addSemester_years_nth:
  "i < length ys \<Longrightarrow>
   fst (addSemester_years yid ys n) ! i =
     (if year_id (ys ! i) = yid
      then (ys ! i)\<lparr>semesters := semesters (ys ! i) @
             [\<lparr>semester_id = snd (generateId (counter_after
                               (length (filter (\<lambda>y. year_id y = yid) (take i ys))) n)),
               semester_name = ''Semester '' @ show_nat (length (semesters (ys ! i)) + 1),
               courses = []\<rparr>]\<rparr>
      else ys ! i)"
proof (induction ys arbitrary: n i)
  case Nil
  then show ?case by simp
next
  case (Cons y ys)
  show ?case
  proof (cases i)
    case 0
    then show ?thesis
      by (simp add: Let_def counter_after_def case_prod_beta)
  next
    case (Suc i')
    then have i': "i' < length ys" using Cons.prems by simp
    show ?thesis using Cons.IH[OF i'] Suc
      by (simp add: Let_def counter_after_def funpow_swap1 case_prod_beta)
  qed
qed

lemma addSemester_years_counter:
  "snd (addSemester_years yid ys n)
   = counter_after (length (filter (\<lambda>y. year_id y = yid) ys)) n"
  by (induction ys arbitrary: n)
     (auto simp: Let_def counter_after_def funpow_swap1 case_prod_beta)

lemma distinct_key_before:
  assumes "distinct (map f xs)" "i < length xs" "f (xs ! i) = v"
  shows "filter (\<lambda>y. f y = v) (take i xs) = []"
proof -
  have "\<And>y. y \<in> set (take i xs) \<Longrightarrow> f y \<noteq> v"
  proof
    fix y assume "y \<in> set (take i xs)" "f y = v"
    then obtain j where j: "j < i" "xs ! j = y"
      using assms(2) by (auto simp: in_set_conv_nth)
    have "j < length (map f xs)" "i < length (map f xs)" using j(1) assms(2) by simp_all
    moreover have "map f xs ! j = map f xs ! i" using assms(2,3) j \<open>f y = v\<close> by simp
    ultimately have "j = i" using assms(1) nth_eq_iff_index_eq by blast
    then show False using j(1) by simp
  qed
  then show ?thesis by (simp add: filter_empty_conv)
qed

lemma distinct_key_once:
  assumes "distinct (map f xs)" "i < length xs" "f (xs ! i) = v"
  shows "length (filter (\<lambda>y. f y = v) xs) = 1"
proof -
  have "\<And>y. y \<in> set (drop (Suc i) xs) \<Longrightarrow> f y \<noteq> v"
  proof
    fix y assume "y \<in> set (drop (Suc i) xs)" "f y = v"
    then obtain k where k: "k < length xs - Suc i" "drop (Suc i) xs ! k = y"
      by (auto simp: in_set_conv_nth)
    define j where "j = Suc i + k"
    have jl: "j < length xs" and jy: "xs ! j = y" using k by (simp_all add: j_def)
    have "j < length (map f xs)" "i < length (map f xs)" using jl assms(2) by simp_all
    moreover have "map f xs ! j = map f xs ! i" using assms(2,3) jl jy \<open>f y = v\<close> by simp
    ultimately have "j = i" using assms(1) nth_eq_iff_index_eq by blast
    then show False by (simp add: j_def)
  qed
  then have d: "filter (\<lambda>y. f y = v) (drop (Suc i) xs) = []" by (simp add: filter_empty_conv)
  have "xs = take i xs @ xs ! i # drop (Suc i) xs" using assms(2) by (rule id_take_nth_drop)
  then have "filter (\<lambda>y. f y = v) xs
             = filter (\<lambda>y. f y = v) (take i xs)
               @ filter (\<lambda>y. f y = v) (xs ! i # drop (Suc i) xs)"
    by (metis filter_append)
  then show ?thesis using distinct_key_before[OF assms] d assms(3) by simp
qed

section \<open>Updating a course\<close>

lemma updateCourse_years_eq:
  "years (updateCourse yearId semesterId courseId upd s)
   = updateCourse_years yearId semesterId courseId upd (years s)"
  by (simp add: updateCourse_def Let_def)

lemma set_field_fields:
  "course_id (set_field upd c) = (case upd of SetId v \<Rightarrow> v | _ \<Rightarrow> course_id c)"
  "course_name (set_field upd c) = (case upd of SetName v \<Rightarrow> v | _ \<Rightarrow> course_name c)"
  "grade (set_field upd c) = (case upd of SetGrade v \<Rightarrow> v | _ \<Rightarrow> grade c)"
  "credits (set_field upd c) = (case upd of SetCredits v \<Rightarrow> v | _ \<Rightarrow> credits c)"
  by (cases upd; simp)+

lemma distinct_concat_nth:
  assumes "distinct (concat xss)" "i < length xss" "j < length xss"
    "x \<in> set (xss ! i)" "x \<in> set (xss ! j)"
  shows "i = j"
  using assms
proof (induction xss arbitrary: i j)
  case Nil
  then show ?case by simp
next
  case (Cons xs xss)
  have dis: "set xs \<inter> set (concat xss) = {}" and d: "distinct (concat xss)"
    using Cons.prems(1) by auto
  have inc: "\<And>k. k < length xss \<Longrightarrow> x \<in> set (xss ! k) \<Longrightarrow> x \<in> set (concat xss)"
    by auto
  show ?case
  proof (cases i)
    case 0
    show ?thesis
    proof (cases j)
      case 0
      then show ?thesis using \<open>i = 0\<close> by simp
    next
      case (Suc j')
      then show ?thesis using Cons.prems \<open>i = 0\<close> dis inc[of j'] by auto
    qed
  next
    case (Suc i')
    show ?thesis
    proof (cases j)
      case 0
      then show ?thesis using Cons.prems Suc dis inc[of i'] by auto
    next
      case (Suc j')
      then show ?thesis using Cons.prems \<open>i = Suc i'\<close> Cons.IH[OF d, of i' j'] by simp
    qed
  qed
qed

lemma course_position_unique:
  assumes d: "distinct (tree_ids ys)"
    and p: "i < length ys" "j < length (semesters (ys ! i))"
           "k < length (courses (semesters (ys ! i) ! j))"
    and p': "i' < length ys" "j' < length (semesters (ys ! i'))"
           "k' < length (courses (semesters (ys ! i') ! j'))"
    and e: "course_id (courses (semesters (ys ! i) ! j) ! k)
            = course_id (courses (semesters (ys ! i') ! j') ! k')"
  shows "i = i' \<and> j = j' \<and> k = k'"
proof -
  let ?x = "course_id (courses (semesters (ys ! i) ! j) ! k)"
  have in_sem: "?x \<in> set (semester_ids (semesters (ys ! i) ! j))"
    using p by (simp add: semester_ids_def)
  have in_sem': "?x \<in> set (semester_ids (semesters (ys ! i') ! j'))"
    using p' e by (simp add: semester_ids_def)
  have in_year: "?x \<in> set (year_ids (ys ! i))"
    using in_sem p by (auto simp: year_ids_def)
  have in_year': "?x \<in> set (year_ids (ys ! i'))"
    using in_sem' p' by (auto simp: year_ids_def)
  have i: "i = i'"
    using distinct_concat_nth[of "map year_ids ys" i i' ?x] d p(1) p'(1) in_year in_year'
    by (simp add: tree_ids_def)
  have dy: "distinct (year_ids (ys ! i))"
    using d p(1) by (auto simp: tree_ids_def distinct_concat_iff)
  then have ds: "distinct (concat (map semester_ids (semesters (ys ! i))))"
    by (simp add: year_ids_def)
  have j: "j = j'"
    using distinct_concat_nth[of "map semester_ids (semesters (ys ! i))" j j' ?x]
      ds p(2) p'(2) in_sem in_sem' i by simp
  have "distinct (semester_ids (semesters (ys ! i) ! j))"
    using ds p(2) by (auto simp: distinct_concat_iff)
  then have dc: "distinct (map course_id (courses (semesters (ys ! i) ! j)))"
    by (simp add: semester_ids_def)
  have "map course_id (courses (semesters (ys ! i) ! j)) ! k
        = map course_id (courses (semesters (ys ! i) ! j)) ! k'"
    using e p(3) p'(3) i j by simp
  moreover have "k < length (map course_id (courses (semesters (ys ! i) ! j)))"
    "k' < length (map course_id (courses (semesters (ys ! i) ! j)))"
    using p(3) p'(3) i j by simp_all
  ultimately have "k = k'" using dc nth_eq_iff_index_eq by blast
  then show ?thesis using i j by simp
qed

text \<open>
  Claim C10. \<^verbatim>\<open>updateCourse\<close> keeps the shape of the tree: the number and order of the years,
  of the semesters of each year and of the courses of each semester, and every year and
  semester id and name. A course is replaced only where the ids of its year, its semester and
  its own all match the arguments, and there by the course with the one named field set to
  the value; every other course is what it was. In a tree with distinct ids one position at
  most matches. The set of expanded years and the id counter are not touched.
\<close>

theorem updateCourse_frame:
  "length (years (updateCourse yearId semesterId courseId upd s)) = length (years s)
   \<and> (\<forall>i < length (years s).
        year_id (years (updateCourse yearId semesterId courseId upd s) ! i) = year_id (years s ! i)
      \<and> year_name (years (updateCourse yearId semesterId courseId upd s) ! i)
          = year_name (years s ! i)
      \<and> length (semesters (years (updateCourse yearId semesterId courseId upd s) ! i))
          = length (semesters (years s ! i))
      \<and> (\<forall>j < length (semesters (years s ! i)).
            semester_id (semesters (years (updateCourse yearId semesterId courseId upd s) ! i) ! j)
              = semester_id (semesters (years s ! i) ! j)
          \<and> semester_name (semesters (years (updateCourse yearId semesterId courseId upd s) ! i) ! j)
              = semester_name (semesters (years s ! i) ! j)
          \<and> length (courses (semesters (years (updateCourse yearId semesterId courseId upd s) ! i) ! j))
              = length (courses (semesters (years s ! i) ! j))
          \<and> (\<forall>k < length (courses (semesters (years s ! i) ! j)).
                courses (semesters (years (updateCourse yearId semesterId courseId upd s) ! i) ! j) ! k
                = (if year_id (years s ! i) = yearId
                      \<and> semester_id (semesters (years s ! i) ! j) = semesterId
                      \<and> course_id (courses (semesters (years s ! i) ! j) ! k) = courseId
                   then set_field upd (courses (semesters (years s ! i) ! j) ! k)
                   else courses (semesters (years s ! i) ! j) ! k))))
   \<and> (\<forall>c. course_id (set_field upd c) = (case upd of SetId v \<Rightarrow> v | _ \<Rightarrow> course_id c)
          \<and> course_name (set_field upd c) = (case upd of SetName v \<Rightarrow> v | _ \<Rightarrow> course_name c)
          \<and> grade (set_field upd c) = (case upd of SetGrade v \<Rightarrow> v | _ \<Rightarrow> grade c)
          \<and> credits (set_field upd c) = (case upd of SetCredits v \<Rightarrow> v | _ \<Rightarrow> credits c))
   \<and> (distinct (tree_ids (years s)) \<longrightarrow>
        (\<forall>i j k i' j' k'.
           i < length (years s) \<and> j < length (semesters (years s ! i))
           \<and> k < length (courses (semesters (years s ! i) ! j))
           \<and> i' < length (years s) \<and> j' < length (semesters (years s ! i'))
           \<and> k' < length (courses (semesters (years s ! i') ! j'))
           \<and> course_id (courses (semesters (years s ! i) ! j) ! k) = courseId
           \<and> course_id (courses (semesters (years s ! i') ! j') ! k') = courseId
           \<longrightarrow> i = i' \<and> j = j' \<and> k = k'))
   \<and> expandedYears (updateCourse yearId semesterId courseId upd s) = expandedYears s
   \<and> nextId (updateCourse yearId semesterId courseId upd s) = nextId s"
proof -
  have 1: "length (years (updateCourse yearId semesterId courseId upd s)) = length (years s)"
    by (simp add: updateCourse_years_eq updateCourse_years_def)
  have 2: "\<forall>i < length (years s).
        year_id (years (updateCourse yearId semesterId courseId upd s) ! i) = year_id (years s ! i)
      \<and> year_name (years (updateCourse yearId semesterId courseId upd s) ! i)
          = year_name (years s ! i)
      \<and> length (semesters (years (updateCourse yearId semesterId courseId upd s) ! i))
          = length (semesters (years s ! i))
      \<and> (\<forall>j < length (semesters (years s ! i)).
            semester_id (semesters (years (updateCourse yearId semesterId courseId upd s) ! i) ! j)
              = semester_id (semesters (years s ! i) ! j)
          \<and> semester_name (semesters (years (updateCourse yearId semesterId courseId upd s) ! i) ! j)
              = semester_name (semesters (years s ! i) ! j)
          \<and> length (courses (semesters (years (updateCourse yearId semesterId courseId upd s) ! i) ! j))
              = length (courses (semesters (years s ! i) ! j))
          \<and> (\<forall>k < length (courses (semesters (years s ! i) ! j)).
                courses (semesters (years (updateCourse yearId semesterId courseId upd s) ! i) ! j) ! k
                = (if year_id (years s ! i) = yearId
                      \<and> semester_id (semesters (years s ! i) ! j) = semesterId
                      \<and> course_id (courses (semesters (years s ! i) ! j) ! k) = courseId
                   then set_field upd (courses (semesters (years s ! i) ! j) ! k)
                   else courses (semesters (years s ! i) ! j) ! k)))"
    by (simp add: updateCourse_years_eq updateCourse_years_def)
  have 3: "\<forall>c. course_id (set_field upd c) = (case upd of SetId v \<Rightarrow> v | _ \<Rightarrow> course_id c)
          \<and> course_name (set_field upd c) = (case upd of SetName v \<Rightarrow> v | _ \<Rightarrow> course_name c)
          \<and> grade (set_field upd c) = (case upd of SetGrade v \<Rightarrow> v | _ \<Rightarrow> grade c)
          \<and> credits (set_field upd c) = (case upd of SetCredits v \<Rightarrow> v | _ \<Rightarrow> credits c)"
    by (simp add: set_field_fields)
  have 4: "distinct (tree_ids (years s)) \<longrightarrow>
        (\<forall>i j k i' j' k'.
           i < length (years s) \<and> j < length (semesters (years s ! i))
           \<and> k < length (courses (semesters (years s ! i) ! j))
           \<and> i' < length (years s) \<and> j' < length (semesters (years s ! i'))
           \<and> k' < length (courses (semesters (years s ! i') ! j'))
           \<and> course_id (courses (semesters (years s ! i) ! j) ! k) = courseId
           \<and> course_id (courses (semesters (years s ! i') ! j') ! k') = courseId
           \<longrightarrow> i = i' \<and> j = j' \<and> k = k')"
    using course_position_unique[of "years s"] by (metis (no_types, lifting))
  have 5: "expandedYears (updateCourse yearId semesterId courseId upd s) = expandedYears s
   \<and> nextId (updateCourse yearId semesterId courseId upd s) = nextId s"
    by (simp add: updateCourse_def Let_def)
  show ?thesis using 1 2 3 4 5 by (intro conjI) blast+
qed

lemma first_course_years:
  "years (addCourse ''1'' ''1-1'' (loadData emptyDatabase)) =
     [\<lparr>year_id = ''1'', year_name = ''Year 1'',
       semesters =
         [\<lparr>semester_id = ''1-1'', semester_name = ''Semester 1'',
            courses = [\<lparr>course_id = ''2'', course_name = '''', grade = ''A'', credits = Fin 3\<rparr>]\<rparr>,
          \<lparr>semester_id = ''1-2'', semester_name = ''Semester 2'', courses = []\<rparr>]\<rparr>]"
  by (simp add: addCourse_def first_start_state initialYear_def generateId_Some toString_2)

theorem updateCourse_frame_witness:
  "courses (semesters (years (updateCourse ''1'' ''1-1'' ''2'' (SetName ''Algebra'')
       (addCourse ''1'' ''1-1'' (loadData emptyDatabase))) ! 0) ! 0) ! 0
   = \<lparr>course_id = ''2'', course_name = ''Algebra'', grade = ''A'', credits = Fin 3\<rparr>
   \<and> length (years (updateCourse ''1'' ''1-1'' ''2'' (SetName ''Algebra'')
       (addCourse ''1'' ''1-1'' (loadData emptyDatabase)))) = 1
   \<and> semester_name (semesters (years (updateCourse ''1'' ''1-1'' ''2'' (SetName ''Algebra'')
       (addCourse ''1'' ''1-1'' (loadData emptyDatabase))) ! 0) ! 0) = ''Semester 1''"
proof -
  let ?s = "addCourse ''1'' ''1-1'' (loadData emptyDatabase)"
  note f = updateCourse_frame[where s = ?s and yearId = "''1''" and semesterId = "''1-1''"
      and courseId = "''2''" and upd = "SetName ''Algebra''"]
  have len: "length (years (updateCourse ''1'' ''1-1'' ''2'' (SetName ''Algebra'') ?s)) = 1"
    using f by (simp add: first_course_years)
  have all: "\<forall>i < length (years ?s). \<forall>j < length (semesters (years ?s ! i)).
      semester_name (semesters (years (updateCourse ''1'' ''1-1'' ''2'' (SetName ''Algebra'') ?s) ! i) ! j)
        = semester_name (semesters (years ?s ! i) ! j)
      \<and> (\<forall>k < length (courses (semesters (years ?s ! i) ! j)).
           courses (semesters (years (updateCourse ''1'' ''1-1'' ''2'' (SetName ''Algebra'') ?s) ! i) ! j) ! k
           = (if year_id (years ?s ! i) = ''1''
                 \<and> semester_id (semesters (years ?s ! i) ! j) = ''1-1''
                 \<and> course_id (courses (semesters (years ?s ! i) ! j) ! k) = ''2''
              then set_field (SetName ''Algebra'') (courses (semesters (years ?s ! i) ! j) ! k)
              else courses (semesters (years ?s ! i) ! j) ! k))"
    using f by blast
  have "0 < length (years ?s)" "0 < length (semesters (years ?s ! 0))"
    "0 < length (courses (semesters (years ?s ! 0) ! 0))"
    by (simp_all add: first_course_years)
  then have "semester_name (semesters (years (updateCourse ''1'' ''1-1'' ''2'' (SetName ''Algebra'') ?s) ! 0) ! 0)
        = semester_name (semesters (years ?s ! 0) ! 0)"
    and "courses (semesters (years (updateCourse ''1'' ''1-1'' ''2'' (SetName ''Algebra'') ?s) ! 0) ! 0) ! 0
           = (if year_id (years ?s ! 0) = ''1''
                 \<and> semester_id (semesters (years ?s ! 0) ! 0) = ''1-1''
                 \<and> course_id (courses (semesters (years ?s ! 0) ! 0) ! 0) = ''2''
              then set_field (SetName ''Algebra'') (courses (semesters (years ?s ! 0) ! 0) ! 0)
              else courses (semesters (years ?s ! 0) ! 0) ! 0)"
    using all by blast+
  then show ?thesis using len by (simp add: first_course_years)
qed

section \<open>Integers as text: reading back what was printed\<close>

lemma of_char_digit_char: "d < 10 \<Longrightarrow> (of_char (digit_char d) :: nat) = 48 + d"
  by (simp add: digit_char_def)

lemma digit_value_digit_char: "d < 10 \<Longrightarrow> digit_value (digit_char d) = Some d"
  by (simp add: digit_value_def of_char_digit_char Let_def)

lemma is_digit_digit_char: "d < 10 \<Longrightarrow> is_digit 10 (digit_char d)"
  by (simp add: is_digit_def digit_value_digit_char)

lemma show_nat_digits: "\<forall>c \<in> set (show_nat n). \<exists>d < 10. c = digit_char d"
proof (induction n rule: show_nat.induct)
  case (1 n)
  show ?case
  proof (cases "n < 10")
    case True
    then show ?thesis by (auto simp: show_nat.simps[of n])
  next
    case False
    have "\<exists>d < 10. digit_char (n mod 10) = digit_char d"
      by (rule exI[of _ "n mod 10"]) simp
    then show ?thesis using 1[OF False] False by (auto simp: show_nat.simps[of n])
  qed
qed

lemma digit_char_plain:
  assumes "d < 10"
  shows "is_digit 10 (digit_char d) \<and> \<not> is_space (digit_char d)
         \<and> digit_char d \<noteq> CHR ''-'' \<and> digit_char d \<noteq> CHR ''+''
         \<and> digit_char d \<noteq> CHR ''x'' \<and> digit_char d \<noteq> CHR ''X''"
proof -
  have r: "(of_char (digit_char d) :: nat) = 48 + d" using assms by (rule of_char_digit_char)
  have "\<And>c. (of_char c :: nat) = 48 + d \<Longrightarrow> \<not> is_space c \<and> c \<noteq> CHR ''-'' \<and> c \<noteq> CHR ''+''
         \<and> c \<noteq> CHR ''x'' \<and> c \<noteq> CHR ''X''"
    using assms by (auto simp: is_space_def)
  then show ?thesis using r assms by (simp add: is_digit_digit_char)
qed

lemma show_nat_nonempty: "show_nat n \<noteq> []"
  by (subst show_nat.simps) simp

lemma digits_value_snoc:
  "digits_value r (z @ [c]) = digits_value r z * r + the (digit_value c)"
  by (simp add: digits_value_def)

lemma digits_value_show_nat: "digits_value 10 (show_nat n) = n"
proof (induction n rule: show_nat.induct)
  case (1 n)
  show ?case
  proof (cases "n < 10")
    case True
    then show ?thesis
      by (simp add: show_nat.simps[of n] digits_value_def digit_value_digit_char)
  next
    case False
    have "digits_value 10 (show_nat n) = digits_value 10 (show_nat (n div 10)) * 10 + n mod 10"
      using False by (simp add: show_nat.simps[of n] digits_value_snoc digit_value_digit_char)
    then show ?thesis using 1[OF False] by simp
  qed
qed

lemma minus_not_digit: "\<not> is_digit 10 (CHR ''-'')"
  by (simp add: is_digit_def digit_value_def Let_def)

lemma parseInt_plain:
  assumes "s \<noteq> []" "\<not> is_space (hd s)" "hd s \<noteq> CHR ''-''" "hd s \<noteq> CHR ''+''"
    "take 2 s \<noteq> ''0x''" "take 2 s \<noteq> ''0X''" "takeWhile (is_digit 10) s = z" "z \<noteq> []"
  shows "parseInt s = Some (int (digits_value 10 z))"
proof -
  have d: "dropWhile is_space s = s" using assms(1,2) by (cases s) simp_all
  show ?thesis
    unfolding parseInt_def d Let_def using assms by (simp del: take_Suc_Cons)
qed

lemma take2_not_hex:
  assumes "c \<noteq> CHR ''0'' \<or> t = [] \<or> (hd t \<noteq> CHR ''x'' \<and> hd t \<noteq> CHR ''X'')"
  shows "take 2 (c # t) \<noteq> ''0x'' \<and> take 2 (c # t) \<noteq> ''0X''"
proof (cases t)
  case Nil
  then show ?thesis by simp
next
  case (Cons a u)
  have "take 2 (c # a # u) = [c, a]" by (simp add: numeral_2_eq_2)
  then show ?thesis using assms Cons by auto
qed

lemma parseInt_show_nat_suffix:
  assumes "rest = [] \<or> hd rest = CHR ''-''"
  shows "parseInt (show_nat n @ rest) = Some (int n)"
proof -
  let ?z = "show_nat n"
  have plain: "\<forall>c \<in> set ?z. is_digit 10 c \<and> \<not> is_space c \<and> c \<noteq> CHR ''-'' \<and> c \<noteq> CHR ''+''
         \<and> c \<noteq> CHR ''x'' \<and> c \<noteq> CHR ''X''"
  proof
    fix c assume "c \<in> set ?z"
    then obtain d where d: "d < 10" "c = digit_char d" using show_nat_digits[of n] by blast
    show "is_digit 10 c \<and> \<not> is_space c \<and> c \<noteq> CHR ''-'' \<and> c \<noteq> CHR ''+''
         \<and> c \<noteq> CHR ''x'' \<and> c \<noteq> CHR ''X''"
      unfolding d(2) using d(1) by (rule digit_char_plain)
  qed
  obtain c z' where z: "?z = c # z'" using show_nat_nonempty[of n] by (cases ?z) auto
  have c: "is_digit 10 c" "\<not> is_space c" "c \<noteq> CHR ''-''" "c \<noteq> CHR ''+''"
    using plain z by auto
  have t: "z' @ rest = [] \<or> (hd (z' @ rest) \<noteq> CHR ''x'' \<and> hd (z' @ rest) \<noteq> CHR ''X'')"
  proof (cases z')
    case Nil
    then show ?thesis using assms by auto
  next
    case (Cons c' z'')
    then have "c' \<in> set ?z" using z by simp
    then show ?thesis using plain Cons by auto
  qed
  have nohex: "take 2 (?z @ rest) \<noteq> ''0x''" "take 2 (?z @ rest) \<noteq> ''0X''"
    using take2_not_hex[of c "z' @ rest"] t unfolding z by simp_all
  have tw: "takeWhile (is_digit 10) (?z @ rest) = ?z"
  proof (cases rest)
    case Nil
    then show ?thesis using plain by simp
  next
    case (Cons r rs)
    then have "r = CHR ''-''" using assms by simp
    then show ?thesis using plain Cons minus_not_digit by (simp add: takeWhile_append2)
  qed
  have hd: "hd (?z @ rest) = c" and ne: "?z @ rest \<noteq> []" unfolding z by simp_all
  have "parseInt (?z @ rest) = Some (int (digits_value 10 ?z))"
    by (rule parseInt_plain[OF ne _ _ _ nohex tw show_nat_nonempty]) (simp_all only: hd c not_False_eq_True)
  then show ?thesis by (simp only: digits_value_show_nat)
qed


lemma parseInt_toString:
  assumes "0 \<le> k" "rest = [] \<or> hd rest = CHR ''-''"
  shows "parseInt (toString (Some k) @ rest) = Some k"
  using assms parseInt_show_nat_suffix[of rest "nat k"] by (simp add: toString_def)

lemma toString_nonempty: "toString v \<noteq> []"
  by (simp add: toString_def show_nat_nonempty split: option.split)

section \<open>Fresh ids\<close>

lemma id_numbers_disjoint: "hi \<le> lo' \<Longrightarrow> id_numbers lo hi \<inter> id_numbers lo' hi' = {}"
  by (auto simp: id_numbers_def)

lemma id_numbers_mono: "lo' \<le> lo \<Longrightarrow> hi \<le> hi' \<Longrightarrow> id_numbers lo hi \<subseteq> id_numbers lo' hi'"
  by (auto simp: id_numbers_def)

lemma generated_id_number:
  assumes "0 \<le> n" "rest = [] \<or> hd rest = CHR ''-''"
  shows "toString (Some (n + 1)) @ rest \<in> id_numbers n (n + 1)"
  using assms parseInt_toString[of "n + 1" rest] by (simp add: id_numbers_def)

lemma year_ids_add_semester:
  "year_ids (y\<lparr>semesters := semesters y @ [\<lparr>semester_id = x, semester_name = nm, courses = []\<rparr>]\<rparr>)
   = year_ids y @ [x]"
  by (simp add: year_ids_def semester_ids_def)

lemma addSemester_years_ids:
  assumes "0 \<le> n" "set (tree_ids ys) \<subseteq> id_numbers 0 n" "distinct (tree_ids ys)"
  shows "\<exists>m. snd (addSemester_years yid ys (Some n)) = Some m \<and> n \<le> m
           \<and> distinct (tree_ids (fst (addSemester_years yid ys (Some n))))
           \<and> set (tree_ids (fst (addSemester_years yid ys (Some n))))
               \<subseteq> set (tree_ids ys) \<union> id_numbers n m"
  using assms
proof (induction ys arbitrary: n)
  case Nil
  then show ?case by (simp add: tree_ids_def)
next
  case (Cons y ys)
  have old: "set (year_ids y) \<subseteq> id_numbers 0 n" "set (tree_ids ys) \<subseteq> id_numbers 0 n"
    and dy: "distinct (year_ids y)" and dr: "distinct (tree_ids ys)"
    and dis: "set (year_ids y) \<inter> set (tree_ids ys) = {}"
    using Cons.prems by (auto simp: tree_ids_def)
  show ?case
  proof (cases "year_id y = yid")
    case False
    obtain m where m: "snd (addSemester_years yid ys (Some n)) = Some m" "n \<le> m"
      "distinct (tree_ids (fst (addSemester_years yid ys (Some n))))"
      "set (tree_ids (fst (addSemester_years yid ys (Some n)))) \<subseteq> set (tree_ids ys) \<union> id_numbers n m"
      using Cons.IH[OF Cons.prems(1) old(2) dr] by blast
    have d0: "id_numbers 0 n \<inter> id_numbers n m = {}" by (rule id_numbers_disjoint) simp
    have "set (year_ids y) \<inter> set (tree_ids (fst (addSemester_years yid ys (Some n)))) = {}"
      using m(4) dis old(1) d0 by blast
    then show ?thesis using False m dy
      by (auto simp: tree_ids_def case_prod_beta Let_def)
  next
    case True
    let ?x = "toString (Some (n + 1))"
    let ?r = "addSemester_years yid ys (Some (n + 1))"
    have x: "?x \<in> id_numbers n (n + 1)"
      using generated_id_number[OF Cons.prems(1), of "[]"] by simp
    have n1: "0 \<le> n + 1" using Cons.prems(1) by simp
    have old1: "set (tree_ids ys) \<subseteq> id_numbers 0 (n + 1)"
      using old(2) id_numbers_mono[of 0 0 n "n + 1"] by auto
    obtain m where m: "snd ?r = Some m" "n + 1 \<le> m"
      "distinct (tree_ids (fst ?r))"
      "set (tree_ids (fst ?r)) \<subseteq> set (tree_ids ys) \<union> id_numbers (n + 1) m"
      using Cons.IH[OF n1 old1 dr] by blast
    have d0: "id_numbers 0 n \<inter> id_numbers n (n + 1) = {}" by (rule id_numbers_disjoint) simp
    have d1: "id_numbers 0 n \<inter> id_numbers (n + 1) m = {}" by (rule id_numbers_disjoint) simp
    have d2: "id_numbers n (n + 1) \<inter> id_numbers (n + 1) m = {}"
      by (rule id_numbers_disjoint) simp
    have s1: "id_numbers n (n + 1) \<subseteq> id_numbers n m" using m(2) by (intro id_numbers_mono) simp_all
    have s2: "id_numbers (n + 1) m \<subseteq> id_numbers n m" by (intro id_numbers_mono) simp_all
    have ids: "tree_ids (fst (addSemester_years yid (y # ys) (Some n)))
               = year_ids y @ [?x] @ tree_ids (fst ?r)"
      and cnt: "snd (addSemester_years yid (y # ys) (Some n)) = snd ?r"
      using True
      by (simp_all add: tree_ids_def case_prod_beta Let_def generateId_Some year_ids_add_semester)
    have "distinct (year_ids y @ [?x] @ tree_ids (fst ?r))"
      using dy m(3) m(4) x old dis d0 d1 d2 by (simp add: disjoint_iff subset_iff) blast
    moreover have "set (year_ids y @ [?x] @ tree_ids (fst ?r))
                   \<subseteq> set (tree_ids (y # ys)) \<union> id_numbers n m"
      using m(4) x s1 s2 by (auto simp: tree_ids_def)
    ultimately show ?thesis unfolding ids cnt using m(1,2) by auto
  qed
qed

lemma semester_ids_add_course:
  "semester_ids (sem\<lparr>courses := courses sem @ [c]\<rparr>) = semester_ids sem @ [course_id c]"
  by (simp add: semester_ids_def)

lemma addCourse_semesters_ids:
  assumes "0 \<le> n" "set (concat (map semester_ids sems)) \<subseteq> id_numbers 0 n"
    "distinct (concat (map semester_ids sems))"
  shows "\<exists>m. snd (addCourse_semesters sid sems (Some n)) = Some m \<and> n \<le> m
           \<and> distinct (concat (map semester_ids (fst (addCourse_semesters sid sems (Some n)))))
           \<and> set (concat (map semester_ids (fst (addCourse_semesters sid sems (Some n)))))
               \<subseteq> set (concat (map semester_ids sems)) \<union> id_numbers n m"
  using assms
proof (induction sems arbitrary: n)
  case Nil
  then show ?case by simp
next
  case (Cons y ys)
  have old: "set (semester_ids y) \<subseteq> id_numbers 0 n"
      "set (concat (map semester_ids ys)) \<subseteq> id_numbers 0 n"
    and dy: "distinct (semester_ids y)" and dr: "distinct (concat (map semester_ids ys))"
    and dis: "set (semester_ids y) \<inter> set (concat (map semester_ids ys)) = {}"
    using Cons.prems by auto
  show ?case
  proof (cases "semester_id y = sid")
    case False
    let ?r = "addCourse_semesters sid ys (Some n)"
    obtain m where m: "snd ?r = Some m" "n \<le> m"
      "distinct (concat (map semester_ids (fst ?r)))"
      "set (concat (map semester_ids (fst ?r)))
         \<subseteq> set (concat (map semester_ids ys)) \<union> id_numbers n m"
      using Cons.IH[OF Cons.prems(1) old(2) dr] by blast
    have d0: "id_numbers 0 n \<inter> id_numbers n m = {}" by (rule id_numbers_disjoint) simp
    have "set (semester_ids y) \<inter> set (concat (map semester_ids (fst ?r))) = {}"
      using m(4) dis old(1) d0 by blast
    then show ?thesis using False m dy
      by (auto simp: case_prod_beta Let_def)
  next
    case True
    let ?x = "toString (Some (n + 1))"
    let ?r = "addCourse_semesters sid ys (Some (n + 1))"
    have x: "?x \<in> id_numbers n (n + 1)"
      using generated_id_number[OF Cons.prems(1), of "[]"] by simp
    have n1: "0 \<le> n + 1" using Cons.prems(1) by simp
    have old1: "set (concat (map semester_ids ys)) \<subseteq> id_numbers 0 (n + 1)"
      using old(2) id_numbers_mono[of 0 0 n "n + 1"] by auto
    obtain m where m: "snd ?r = Some m" "n + 1 \<le> m"
      "distinct (concat (map semester_ids (fst ?r)))"
      "set (concat (map semester_ids (fst ?r)))
         \<subseteq> set (concat (map semester_ids ys)) \<union> id_numbers (n + 1) m"
      using Cons.IH[OF n1 old1 dr] by blast
    have d0: "id_numbers 0 n \<inter> id_numbers n (n + 1) = {}" by (rule id_numbers_disjoint) simp
    have d1: "id_numbers 0 n \<inter> id_numbers (n + 1) m = {}" by (rule id_numbers_disjoint) simp
    have d2: "id_numbers n (n + 1) \<inter> id_numbers (n + 1) m = {}"
      by (rule id_numbers_disjoint) simp
    have s1: "id_numbers n (n + 1) \<subseteq> id_numbers n m" using m(2) by (intro id_numbers_mono) simp_all
    have s2: "id_numbers (n + 1) m \<subseteq> id_numbers n m" by (intro id_numbers_mono) simp_all
    have ids: "concat (map semester_ids (fst (addCourse_semesters sid (y # ys) (Some n))))
               = semester_ids y @ [?x] @ concat (map semester_ids (fst ?r))"
      and cnt: "snd (addCourse_semesters sid (y # ys) (Some n)) = snd ?r"
      using True
      by (simp_all add: case_prod_beta Let_def generateId_Some semester_ids_add_course)
    have "distinct (semester_ids y @ [?x] @ concat (map semester_ids (fst ?r)))"
      using dy m(3) m(4) x old dis d0 d1 d2 by (simp add: disjoint_iff subset_iff) blast
    moreover have "set (semester_ids y @ [?x] @ concat (map semester_ids (fst ?r)))
                   \<subseteq> set (concat (map semester_ids (y # ys))) \<union> id_numbers n m"
      using m(4) x s1 s2 by auto
    ultimately show ?thesis unfolding ids cnt using m(1,2) by auto
  qed
qed

lemma addCourse_years_ids:
  assumes "0 \<le> n" "set (tree_ids ys) \<subseteq> id_numbers 0 n" "distinct (tree_ids ys)"
  shows "\<exists>m. snd (addCourse_years yid sid ys (Some n)) = Some m \<and> n \<le> m
           \<and> distinct (tree_ids (fst (addCourse_years yid sid ys (Some n))))
           \<and> set (tree_ids (fst (addCourse_years yid sid ys (Some n))))
               \<subseteq> set (tree_ids ys) \<union> id_numbers n m"
  using assms
proof (induction ys arbitrary: n)
  case Nil
  then show ?case by (simp add: tree_ids_def)
next
  case (Cons y ys)
  have old: "set (year_ids y) \<subseteq> id_numbers 0 n" "set (tree_ids ys) \<subseteq> id_numbers 0 n"
    and dy: "distinct (year_ids y)" and dr: "distinct (tree_ids ys)"
    and dis: "set (year_ids y) \<inter> set (tree_ids ys) = {}"
    using Cons.prems by (auto simp: tree_ids_def)
  show ?case
  proof (cases "year_id y = yid")
    case False
    let ?r = "addCourse_years yid sid ys (Some n)"
    obtain m where m: "snd ?r = Some m" "n \<le> m"
      "distinct (tree_ids (fst ?r))"
      "set (tree_ids (fst ?r)) \<subseteq> set (tree_ids ys) \<union> id_numbers n m"
      using Cons.IH[OF Cons.prems(1) old(2) dr] by blast
    have d0: "id_numbers 0 n \<inter> id_numbers n m = {}" by (rule id_numbers_disjoint) simp
    have "set (year_ids y) \<inter> set (tree_ids (fst ?r)) = {}"
      using m(4) dis old(1) d0 by blast
    then show ?thesis using False m dy
      by (auto simp: tree_ids_def case_prod_beta Let_def)
  next
    case True
    let ?q = "addCourse_semesters sid (semesters y) (Some n)"
    let ?S = "concat (map semester_ids (semesters y))"
    let ?S' = "concat (map semester_ids (fst ?q))"
    have yS: "year_ids y = year_id y # ?S" by (simp add: year_ids_def)
    have oldS: "set ?S \<subseteq> id_numbers 0 n" and dS: "distinct ?S"
      and yid: "year_id y \<in> id_numbers 0 n" "year_id y \<notin> set ?S"
      using old(1) dy unfolding yS by auto
    obtain m1 where m1: "snd ?q = Some m1" "n \<le> m1" "distinct ?S'"
      "set ?S' \<subseteq> set ?S \<union> id_numbers n m1"
      using addCourse_semesters_ids[OF Cons.prems(1) oldS dS] by blast
    let ?r = "addCourse_years yid sid ys (Some m1)"
    have n1: "0 \<le> m1" using Cons.prems(1) m1(2) by simp
    have old1: "set (tree_ids ys) \<subseteq> id_numbers 0 m1"
      using old(2) id_numbers_mono[of 0 0 n m1] m1(2) by auto
    obtain m where m: "snd ?r = Some m" "m1 \<le> m"
      "distinct (tree_ids (fst ?r))"
      "set (tree_ids (fst ?r)) \<subseteq> set (tree_ids ys) \<union> id_numbers m1 m"
      using Cons.IH[OF n1 old1 dr] by blast
    have d0: "id_numbers 0 n \<inter> id_numbers n m1 = {}" by (rule id_numbers_disjoint) simp
    have d1: "id_numbers 0 n \<inter> id_numbers m1 m = {}"
      using m1(2) by (intro id_numbers_disjoint)
    have d2: "id_numbers n m1 \<inter> id_numbers m1 m = {}" by (rule id_numbers_disjoint) simp
    have s1: "id_numbers n m1 \<subseteq> id_numbers n m" using m(2) by (intro id_numbers_mono) simp_all
    have s2: "id_numbers m1 m \<subseteq> id_numbers n m" using m1(2) by (intro id_numbers_mono) simp_all
    have ids: "tree_ids (fst (addCourse_years yid sid (y # ys) (Some n)))
               = (year_id y # ?S') @ tree_ids (fst ?r)"
      and cnt: "snd (addCourse_years yid sid (y # ys) (Some n)) = snd ?r"
      using True m1(1)
      by (simp_all add: tree_ids_def case_prod_beta Let_def year_ids_def)
    have "distinct ((year_id y # ?S') @ tree_ids (fst ?r))"
      using m1(3,4) m(3,4) old oldS yid dis d0 d1 d2 unfolding yS
      by (simp add: disjoint_iff subset_iff) blast
    moreover have "set ((year_id y # ?S') @ tree_ids (fst ?r))
                   \<subseteq> set (tree_ids (y # ys)) \<union> id_numbers n m"
    proof -
      have e1: "set (tree_ids (y # ys)) = insert (year_id y) (set ?S) \<union> set (tree_ids ys)"
        by (simp add: tree_ids_def yS)
      have e2: "set ((year_id y # ?S') @ tree_ids (fst ?r))
                = insert (year_id y) (set ?S') \<union> set (tree_ids (fst ?r))"
        by simp
      show ?thesis unfolding e1 e2 using m(4) m1(4) s1 s2 by blast
    qed
    ultimately show ?thesis unfolding ids cnt using m(1,2) m1(2) by auto
  qed
qed

section \<open>Operations that keep or remove ids\<close>

lemma tree_ids_append: "tree_ids (xs @ ys) = tree_ids xs @ tree_ids ys"
  by (simp add: tree_ids_def)

lemma distinct_year_ids: "distinct (tree_ids ys) \<Longrightarrow> distinct (map year_id ys)"
  by (induction ys) (auto simp: tree_ids_def year_ids_def)

lemma tree_ids_mset: "mset xs = mset ys \<Longrightarrow> mset (tree_ids xs) = mset (tree_ids ys)"
proof -
  assume a: "mset xs = mset ys"
  have "\<And>zs. mset (tree_ids zs) = sum_mset (image_mset (\<lambda>y. mset (year_ids y)) (mset zs))"
    by (simp add: tree_ids_def mset_concat flip: sum_mset_sum_list) (simp add: comp_def)
  then show ?thesis using a by simp
qed

lemma concat_shrink:
  assumes "\<forall>x \<in> set xs. set (f' x) \<subseteq> set (f x) \<and> (distinct (f x) \<longrightarrow> distinct (f' x))"
    "distinct (concat (map f xs))"
  shows "distinct (concat (map f' xs)) \<and> set (concat (map f' xs)) \<subseteq> set (concat (map f xs))"
  using assms
proof (induction xs)
  case Nil
  then show ?case by simp
next
  case (Cons x xs)
  have ih: "distinct (concat (map f' xs))" "set (concat (map f' xs)) \<subseteq> set (concat (map f xs))"
    using Cons by auto
  have x: "set (f' x) \<subseteq> set (f x)" "distinct (f' x)"
    and dis: "set (f x) \<inter> set (concat (map f xs)) = {}"
    using Cons.prems by auto
  have "set (f' x) \<inter> set (concat (map f' xs)) = {}" using x(1) ih(2) dis by blast
  then show ?case using ih x by auto
qed

lemma concat_filter_shrink:
  assumes "distinct (concat (map f xs))"
  shows "distinct (concat (map f (filter P xs)))
         \<and> set (concat (map f (filter P xs))) \<subseteq> set (concat (map f xs))"
  using assms by (induction xs) auto

lemma deleteYear_years_ids:
  assumes "distinct (tree_ids ys)"
  shows "distinct (tree_ids (deleteYear_years yid ys))
         \<and> set (tree_ids (deleteYear_years yid ys)) \<subseteq> set (tree_ids ys)"
  unfolding tree_ids_def deleteYear_years_def
  using assms concat_filter_shrink[of year_ids ys] by (simp add: tree_ids_def)

lemma concat_subset:
  "\<forall>x \<in> set xs. set (f' x) \<subseteq> set (f x)
   \<Longrightarrow> set (concat (map f' xs)) \<subseteq> set (concat (map f xs))"
  by auto

lemma year_ids_shrink:
  fixes y :: Year
  assumes "set (concat (map semester_ids sems')) \<subseteq> set (concat (map semester_ids (semesters y)))"
    and "distinct (concat (map semester_ids (semesters y)))
         \<Longrightarrow> distinct (concat (map semester_ids sems'))"
  shows "set (year_ids (y\<lparr>semesters := sems'\<rparr>)) \<subseteq> set (year_ids y)
         \<and> (distinct (year_ids y) \<longrightarrow> distinct (year_ids (y\<lparr>semesters := sems'\<rparr>)))"
  using assms unfolding year_ids_def by auto

lemma deleteSemester_years_ids:
  assumes "distinct (tree_ids ys)"
  shows "distinct (tree_ids (deleteSemester_years yid sid ys))
         \<and> set (tree_ids (deleteSemester_years yid sid ys)) \<subseteq> set (tree_ids ys)"
proof -
  let ?g = "\<lambda>year :: Year. if year_id year = yid
                  then year\<lparr>semesters :=
                         filter (\<lambda>semester. semester_id semester \<noteq> sid) (semesters year)\<rparr>
                  else year"
  have "\<forall>y \<in> set ys. set (year_ids (?g y)) \<subseteq> set (year_ids y)
          \<and> (distinct (year_ids y) \<longrightarrow> distinct (year_ids (?g y)))"
  proof
    fix y :: Year
    let ?f = "filter (\<lambda>semester. semester_id semester \<noteq> sid) (semesters y)"
    have "set (year_ids (y\<lparr>semesters := ?f\<rparr>)) \<subseteq> set (year_ids y)
         \<and> (distinct (year_ids y) \<longrightarrow> distinct (year_ids (y\<lparr>semesters := ?f\<rparr>)))"
      by (rule year_ids_shrink) (use concat_filter_shrink[of semester_ids "semesters y"] in auto)
    then show "set (year_ids (?g y)) \<subseteq> set (year_ids y)
          \<and> (distinct (year_ids y) \<longrightarrow> distinct (year_ids (?g y)))"
      by simp
  qed
  then have "distinct (concat (map (\<lambda>y. year_ids (?g y)) ys))
         \<and> set (concat (map (\<lambda>y. year_ids (?g y)) ys)) \<subseteq> set (concat (map year_ids ys))"
    using assms by (intro concat_shrink) (simp_all add: tree_ids_def)
  then show ?thesis by (simp add: tree_ids_def deleteSemester_years_def comp_def)
qed

lemma removeCourse_years_ids:
  assumes "distinct (tree_ids ys)"
  shows "distinct (tree_ids (removeCourse_years yid sid cid ys))
         \<and> set (tree_ids (removeCourse_years yid sid cid ys)) \<subseteq> set (tree_ids ys)"
proof -
  let ?h = "\<lambda>semester :: Semester. if semester_id semester = sid
                          then semester\<lparr>courses :=
                                 filter (\<lambda>course. course_id course \<noteq> cid) (courses semester)\<rparr>
                          else semester"
  let ?g = "\<lambda>year :: Year. if year_id year = yid then year\<lparr>semesters := map ?h (semesters year)\<rparr>
                    else year"
  have h: "set (semester_ids (?h sem)) \<subseteq> set (semester_ids sem)
          \<and> (distinct (semester_ids sem) \<longrightarrow> distinct (semester_ids (?h sem)))" for sem
    by (auto simp: semester_ids_def distinct_map_filter)
  have "\<forall>y \<in> set ys. set (year_ids (?g y)) \<subseteq> set (year_ids y)
          \<and> (distinct (year_ids y) \<longrightarrow> distinct (year_ids (?g y)))"
  proof
    fix y :: Year
    have s: "set (concat (map semester_ids (map ?h (semesters y))))
             \<subseteq> set (concat (map semester_ids (semesters y)))"
      using concat_subset[of "semesters y" "\<lambda>s. semester_ids (?h s)" semester_ids] h
      by (simp add: comp_def)
    have c: "distinct (concat (map semester_ids (map ?h (semesters y))))"
      if "distinct (concat (map semester_ids (semesters y)))"
      using concat_shrink[of "semesters y" "\<lambda>s. semester_ids (?h s)" semester_ids] h that
      by (simp add: comp_def)
    have "set (year_ids (y\<lparr>semesters := map ?h (semesters y)\<rparr>)) \<subseteq> set (year_ids y)
         \<and> (distinct (year_ids y)
              \<longrightarrow> distinct (year_ids (y\<lparr>semesters := map ?h (semesters y)\<rparr>)))"
      using s c by (rule year_ids_shrink)
    then show "set (year_ids (?g y)) \<subseteq> set (year_ids y)
          \<and> (distinct (year_ids y) \<longrightarrow> distinct (year_ids (?g y)))"
      by simp
  qed
  then have "distinct (concat (map (\<lambda>y. year_ids (?g y)) ys))
         \<and> set (concat (map (\<lambda>y. year_ids (?g y)) ys)) \<subseteq> set (concat (map year_ids ys))"
    using assms by (intro concat_shrink) (simp_all add: tree_ids_def)
  then show ?thesis by (simp add: tree_ids_def removeCourse_years_def comp_def)
qed

lemma updateCourse_years_ids:
  assumes "\<And>c. course_id (set_field upd c) = course_id c"
  shows "tree_ids (updateCourse_years yid sid cid upd ys) = tree_ids ys"
proof -
  let ?u = "\<lambda>course :: Course. if course_id course = cid then set_field upd course else course"
  let ?h = "\<lambda>semester :: Semester. if semester_id semester = sid
              then semester\<lparr>courses := map ?u (courses semester)\<rparr> else semester"
  let ?g = "\<lambda>year :: Year. if year_id year = yid
              then year\<lparr>semesters := map ?h (semesters year)\<rparr> else year"
  have u: "course_id (?u c) = course_id c" for c
    by (simp add: assms)
  have c: "map course_id (map ?u cs) = map course_id cs" for cs
    by (induction cs) (simp_all only: list.map u)
  have h: "semester_ids (?h sem) = semester_ids sem" for sem
    unfolding semester_ids_def using c[of "courses sem"] by simp
  have s: "map (semester_ids \<circ> ?h) sems = map semester_ids sems" for sems
    by (induction sems) (simp_all only: list.map comp_apply h)
  have g: "year_ids (?g y) = year_ids y" for y
    unfolding year_ids_def by (simp add: s)
  have m: "map (year_ids \<circ> ?g) ys = map year_ids ys"
    by (induction ys) (simp_all only: list.map comp_apply g)
  show ?thesis
    unfolding tree_ids_def updateCourse_years_def by (simp add: m)
qed

section \<open>The invariant holds in every reachable state\<close>

lemma parseInt_initial_ids:
  "parseInt ''1'' = Some 1" "parseInt ''1-1'' = Some 1" "parseInt ''1-2'' = Some 1"
  by code_simp+

lemma initial_ids_numbers: "set (tree_ids [initialYear]) \<subseteq> id_numbers 0 1"
  by (simp add: tree_ids_initialYear id_numbers_def parseInt_initial_ids)

lemma loadData_fields:
  "years (loadData d) = (if years_store d \<noteq> [] then years_store d else [initialYear])"
  "nextId (loadData d) =
     (if years_store d \<noteq> []
      then map_option (\<lambda>m. m + 1) (math_max (map parseInt (tree_ids (years_store d))))
      else Some 1)"
  "years_store (db (loadData d)) = (if years_store d \<noteq> [] then years_store d else [initialYear])"
  by (simp_all add: loadData_def Let_def saveData_initialYear split: option.split)

lemma math_max_ids:
  assumes "xs \<noteq> []" "set xs \<subseteq> id_numbers 0 n"
  shows "\<exists>m. math_max (map parseInt xs) = Some m \<and> 0 < m \<and> set xs \<subseteq> id_numbers 0 m
             \<and> m = Max ((the \<circ> parseInt) ` set xs)"
  using assms
proof (induction xs rule: list_nonempty_induct)
  case (single x)
  then obtain k where "parseInt x = Some k" "0 < k" by (auto simp: id_numbers_def)
  then show ?case by (simp add: id_numbers_def)
next
  case (cons x xs)
  obtain k where k: "parseInt x = Some k" "0 < k" using cons.prems by (auto simp: id_numbers_def)
  obtain m where m: "math_max (map parseInt xs) = Some m" "0 < m" "set xs \<subseteq> id_numbers 0 m"
    "m = Max ((the \<circ> parseInt) ` set xs)"
    using cons.IH cons.prems by auto
  obtain y ys where xs: "xs = y # ys" using cons.hyps by (cases xs) auto
  have mm: "math_max (map parseInt (x # xs)) = Some (max k m)"
    using k(1) m(1) unfolding xs by simp
  have sub: "set (x # xs) \<subseteq> id_numbers 0 (max k m)"
    using k m(3) id_numbers_mono[of 0 0 m "max k m"] by (auto simp: id_numbers_def)
  have "Max ((the \<circ> parseInt) ` set (x # xs)) = max k (Max ((the \<circ> parseInt) ` set xs))"
    using cons.hyps k(1) by (simp add: Max_insert)
  then show ?case using mm sub k(2) m(2,4) by simp
qed

lemma tree_ids_nonempty: "ys \<noteq> [] \<Longrightarrow> tree_ids ys \<noteq> []"
  by (cases ys) (simp_all add: tree_ids_def year_ids_def)

lemma inv_first_start: "tree_inv (loadData emptyDatabase)"
  unfolding tree_inv_def
  using initial_ids_numbers
  by (simp add: first_start_state tree_ids_initialYear)

lemma inv_restart:
  assumes "tree_inv s"
  shows "tree_inv (loadData (db s))"
proof (cases "years_store (db s) = []")
  case True
  then show ?thesis
    unfolding tree_inv_def using initial_ids_numbers
    by (simp add: loadData_fields tree_ids_initialYear)
next
  case False
  let ?L = "years_store (db s)"
  obtain n where n: "nextId s = Some n" "distinct (tree_ids (years s))"
    "set (tree_ids (years s)) \<subseteq> id_numbers 0 n" "mset ?L = mset (years s)"
    using assms by (auto simp: tree_inv_def)
  have ms: "mset (tree_ids ?L) = mset (tree_ids (years s))" using n(4) by (rule tree_ids_mset)
  have d: "distinct (tree_ids ?L)" using ms n(2) mset_eq_imp_distinct_iff by blast
  have sub: "set (tree_ids ?L) \<subseteq> id_numbers 0 n" using ms n(3) mset_eq_setD by blast
  obtain m where m: "math_max (map parseInt (tree_ids ?L)) = Some m" "0 < m"
    "set (tree_ids ?L) \<subseteq> id_numbers 0 m"
    using math_max_ids[OF tree_ids_nonempty[OF False] sub] by blast
  have "set (tree_ids ?L) \<subseteq> id_numbers 0 (m + 1)"
    using m(3) id_numbers_mono[of 0 0 m "m + 1"] by auto
  then show ?thesis
    unfolding tree_inv_def using False m(1,2) d
    by (simp add: loadData_fields)
qed

lemma saveData_sync:
  "distinct (tree_ids ys) \<Longrightarrow> mset (years_store (saveData ys d)) = mset ys"
  by (rule saveData_distinct) (rule distinct_year_ids)

lemma append_suffix_neq: "x @ [a, b] \<noteq> x"
  by simp

lemma inv_addYear:
  assumes "tree_inv s"
  shows "tree_inv (addYear s) \<and> (\<exists>n. nextId s = Some n \<and> nextId (addYear s) = Some (n + 1))"
proof -
  obtain n where n: "nextId s = Some n" "0 < n" "distinct (tree_ids (years s))"
    "set (tree_ids (years s)) \<subseteq> id_numbers 0 n"
    using assms by (auto simp: tree_inv_def)
  let ?x = "toString (Some (n + 1))"
  let ?new = "\<lparr>year_id = ?x, year_name = ''Year '' @ show_nat (length (years s) + 1),
       semesters = [\<lparr>semester_id = ?x @ ''-1'', semester_name = ''Semester 1'', courses = []\<rparr>,
                    \<lparr>semester_id = ?x @ ''-2'', semester_name = ''Semester 2'', courses = []\<rparr>]\<rparr>"
  let ?ys = "years s @ [?new]"
  have n0: "0 \<le> n" using n(2) by simp
  have x: "?x \<in> id_numbers n (n + 1)" "?x @ ''-1'' \<in> id_numbers n (n + 1)"
    "?x @ ''-2'' \<in> id_numbers n (n + 1)"
    using generated_id_number[OF n0, of "[]"] generated_id_number[OF n0, of "''-1''"]
      generated_id_number[OF n0, of "''-2''"] by simp_all
  have ids: "tree_ids ?ys = tree_ids (years s) @ [?x, ?x @ ''-1'', ?x @ ''-2'']"
    by (simp add: tree_ids_def year_ids_def semester_ids_def)
  have d0: "id_numbers 0 n \<inter> id_numbers n (n + 1) = {}" by (rule id_numbers_disjoint) simp
  have three: "distinct [?x, ?x @ ''-1'', ?x @ ''-2'']" by simp
  have dist: "distinct (tree_ids ?ys)"
    unfolding ids using n(3,4) x d0 three by (simp only: distinct_append) auto
  have s0: "id_numbers 0 n \<subseteq> id_numbers 0 (n + 1)" by (rule id_numbers_mono) simp_all
  have s1: "id_numbers n (n + 1) \<subseteq> id_numbers 0 (n + 1)" using n0 by (intro id_numbers_mono) simp_all
  have sub: "set (tree_ids ?ys) \<subseteq> id_numbers 0 (n + 1)"
    unfolding ids using n(4) x s0 s1 by auto
  have st: "addYear s = s\<lparr>years := ?ys, nextId := Some (n + 1), db := saveData ?ys (db s),
              expandedYears := insert ?x (expandedYears s)\<rparr>"
    by (simp add: addYear_def Let_def n(1) generateId_Some)
  show ?thesis unfolding st tree_inv_def using dist sub n(1,2) saveData_sync[OF dist]
    by simp
qed

lemma inv_shrink:
  assumes "tree_inv s" "distinct (tree_ids ys)" "set (tree_ids ys) \<subseteq> set (tree_ids (years s))"
  shows "tree_inv (s\<lparr>years := ys, db := saveData ys (db s)\<rparr>)"
  using assms saveData_sync[OF assms(2)] unfolding tree_inv_def by auto

lemma inv_deleteYear: "tree_inv s \<Longrightarrow> tree_inv (deleteYear yearId s)"
proof -
  assume a: "tree_inv s"
  then have d: "distinct (tree_ids (years s))" by (auto simp: tree_inv_def)
  have "tree_inv (s\<lparr>years := deleteYear_years yearId (years s),
                    db := saveData (deleteYear_years yearId (years s)) (db s)\<rparr>)"
    using a deleteYear_years_ids[OF d] by (intro inv_shrink) simp_all
  then show ?thesis by (simp add: deleteYear_def Let_def tree_inv_def)
qed

lemma inv_deleteSemester: "tree_inv s \<Longrightarrow> tree_inv (deleteSemester yearId semesterId s)"
proof -
  assume a: "tree_inv s"
  then have d: "distinct (tree_ids (years s))" by (auto simp: tree_inv_def)
  have "tree_inv (s\<lparr>years := deleteSemester_years yearId semesterId (years s),
                    db := saveData (deleteSemester_years yearId semesterId (years s)) (db s)\<rparr>)"
    using a deleteSemester_years_ids[OF d] by (intro inv_shrink) simp_all
  then show ?thesis by (simp add: deleteSemester_def Let_def)
qed

lemma inv_removeCourse: "tree_inv s \<Longrightarrow> tree_inv (removeCourse yearId semesterId courseId s)"
proof -
  assume a: "tree_inv s"
  then have d: "distinct (tree_ids (years s))" by (auto simp: tree_inv_def)
  have "tree_inv (s\<lparr>years := removeCourse_years yearId semesterId courseId (years s),
          db := saveData (removeCourse_years yearId semesterId courseId (years s)) (db s)\<rparr>)"
    using a removeCourse_years_ids[OF d] by (intro inv_shrink) simp_all
  then show ?thesis by (simp add: removeCourse_def Let_def)
qed

lemma inv_updateCourse:
  assumes "tree_inv s" "\<And>c. course_id (set_field upd c) = course_id c"
  shows "tree_inv (updateCourse yearId semesterId courseId upd s)"
proof -
  have d: "distinct (tree_ids (years s))" using assms(1) by (auto simp: tree_inv_def)
  have e: "tree_ids (updateCourse_years yearId semesterId courseId upd (years s))
           = tree_ids (years s)"
    using assms(2) by (rule updateCourse_years_ids)
  have "tree_inv (s\<lparr>years := updateCourse_years yearId semesterId courseId upd (years s),
          db := saveData (updateCourse_years yearId semesterId courseId upd (years s)) (db s)\<rparr>)"
    using assms(1) d e by (intro inv_shrink) simp_all
  then show ?thesis by (simp add: updateCourse_def Let_def)
qed

lemma inv_grow:
  assumes "tree_inv s" "nextId s = Some n" "n \<le> m" "distinct (tree_ids ys)"
    "set (tree_ids ys) \<subseteq> set (tree_ids (years s)) \<union> id_numbers n m"
  shows "tree_inv (s\<lparr>years := ys, nextId := Some m, db := saveData ys (db s)\<rparr>)"
proof -
  have n: "0 < n" "set (tree_ids (years s)) \<subseteq> id_numbers 0 n"
    using assms(1,2) by (auto simp: tree_inv_def)
  have "id_numbers 0 n \<subseteq> id_numbers 0 m" using assms(3) by (intro id_numbers_mono) simp_all
  moreover have "id_numbers n m \<subseteq> id_numbers 0 m" using n(1) by (intro id_numbers_mono) simp_all
  ultimately have "set (tree_ids ys) \<subseteq> id_numbers 0 m" using assms(5) n(2) by blast
  then show ?thesis
    unfolding tree_inv_def using n(1) assms(3,4) saveData_sync[OF assms(4)] by simp
qed

lemma inv_addSemester:
  assumes "tree_inv s"
  shows "tree_inv (addSemester yearId s)
         \<and> (\<exists>n m. nextId s = Some n \<and> nextId (addSemester yearId s) = Some m \<and> n \<le> m)"
proof -
  obtain n where n: "nextId s = Some n" "0 < n" "distinct (tree_ids (years s))"
    "set (tree_ids (years s)) \<subseteq> id_numbers 0 n"
    using assms by (auto simp: tree_inv_def)
  let ?r = "addSemester_years yearId (years s) (Some n)"
  have n0: "0 \<le> n" using n(2) by simp
  obtain m where m: "snd ?r = Some m" "n \<le> m" "distinct (tree_ids (fst ?r))"
    "set (tree_ids (fst ?r)) \<subseteq> set (tree_ids (years s)) \<union> id_numbers n m"
    using addSemester_years_ids[OF n0 n(4) n(3)] by blast
  have st: "addSemester yearId s
            = s\<lparr>years := fst ?r, nextId := Some m, db := saveData (fst ?r) (db s)\<rparr>"
    using m(1) by (simp add: addSemester_def n(1) case_prod_beta)
  show ?thesis unfolding st using inv_grow[OF assms n(1) m(2,3,4)] n(1) m(2) by simp
qed

lemma inv_addCourse:
  assumes "tree_inv s"
  shows "tree_inv (addCourse yearId semesterId s)
         \<and> (\<exists>n m. nextId s = Some n \<and> nextId (addCourse yearId semesterId s) = Some m \<and> n \<le> m)"
proof -
  obtain n where n: "nextId s = Some n" "0 < n" "distinct (tree_ids (years s))"
    "set (tree_ids (years s)) \<subseteq> id_numbers 0 n"
    using assms by (auto simp: tree_inv_def)
  let ?r = "addCourse_years yearId semesterId (years s) (Some n)"
  have n0: "0 \<le> n" using n(2) by simp
  obtain m where m: "snd ?r = Some m" "n \<le> m" "distinct (tree_ids (fst ?r))"
    "set (tree_ids (fst ?r)) \<subseteq> set (tree_ids (years s)) \<union> id_numbers n m"
    using addCourse_years_ids[OF n0 n(4) n(3)] by blast
  have st: "addCourse yearId semesterId s
            = s\<lparr>years := fst ?r, nextId := Some m, db := saveData (fst ?r) (db s)\<rparr>"
    using m(1) by (simp add: addCourse_def n(1) case_prod_beta)
  show ?thesis unfolding st using inv_grow[OF assms n(1) m(2,3,4)] n(1) m(2) by simp
qed

lemma saveUserProfile_years_store: "years_store (saveUserProfile p d) = years_store d"
  by (simp add: saveUserProfile_def)

lemma reachable_inv: "reachable s \<Longrightarrow> tree_inv s"
proof (induction rule: reachable.induct)
  case first_start
  show ?case by (rule inv_first_start)
next
  case (restart s)
  then show ?case by (simp add: inv_restart)
next
  case (add_year s)
  then show ?case by (simp add: inv_addYear)
next
  case (delete_year s yearId)
  then show ?case by (simp add: inv_deleteYear)
next
  case (add_semester s yearId)
  then show ?case by (simp add: inv_addSemester)
next
  case (delete_semester s yearId semesterId)
  then show ?case by (simp add: inv_deleteSemester)
next
  case (add_course s yearId semesterId)
  then show ?case by (simp add: inv_addCourse)
next
  case (update_name s yearId semesterId courseId v)
  then show ?case by (simp add: inv_updateCourse)
next
  case (update_grade s g yearId semesterId courseId)
  then show ?case by (simp add: inv_updateCourse)
next
  case (update_credits s yearId semesterId courseId v)
  then show ?case by (simp add: inv_updateCourse)
next
  case (remove_course s yearId semesterId courseId)
  then show ?case by (simp add: inv_removeCourse)
next
  case (toggle_year s yearId)
  then show ?case by (simp add: tree_inv_def toggleYearExpansion_def)
next
  case (edit_profile s)
  then show ?case by (simp add: tree_inv_def)
next
  case (change_profile s field v)
  then show ?case by (cases field) (simp_all add: tree_inv_def)
next
  case (save_profile s)
  then show ?case
    by (simp add: tree_inv_def handleSaveProfile_def saveUserProfile_years_store)
next
  case (delete_profile s)
  then show ?case
    by (simp add: tree_inv_def handleDeleteProfile_def saveUserProfile_years_store)
qed

lemma reachable_apply_add: "reachable s \<Longrightarrow> reachable (apply_add s op)"
  by (cases op) (simp_all add: reachable.intros)

lemma reachable_adds: "reachable s \<Longrightarrow> reachable (foldl apply_add s ops)"
  by (induction ops arbitrary: s) (simp_all add: reachable_apply_add)

lemma counter_apply_add:
  assumes "tree_inv s"
  shows "\<exists>n m. nextId s = Some n \<and> nextId (apply_add s op) = Some m \<and> n \<le> m"
proof (cases op)
  case AddYear
  then show ?thesis using inv_addYear[OF assms] by auto
next
  case (AddSemester yearId)
  then show ?thesis using inv_addSemester[OF assms] by auto
next
  case (AddCourse yearId semesterId)
  then show ?thesis using inv_addCourse[OF assms] by auto
qed

lemma counter_adds:
  assumes "reachable s"
  shows "\<exists>n m. nextId s = Some n \<and> nextId (foldl apply_add s ops) = Some m \<and> n \<le> m"
  using assms
proof (induction ops arbitrary: s)
  case Nil
  then show ?case using reachable_inv[of s] by (auto simp: tree_inv_def)
next
  case (Cons op ops)
  obtain n k where 1: "nextId s = Some n" "nextId (apply_add s op) = Some k" "n \<le> k"
    using counter_apply_add[OF reachable_inv[OF Cons.prems]] by blast
  obtain k' m where 2: "nextId (apply_add s op) = Some k'"
    "nextId (foldl apply_add (apply_add s op) ops) = Some m" "k' \<le> m"
    using Cons.IH[OF reachable_apply_add[OF Cons.prems]] by blast
  show ?case using 1 2 by auto
qed

lemma restart_seed:
  assumes "reachable s"
  shows "nextId (loadData (db s)) =
           (if years s = [] then Some 1
            else Some (Max ((the \<circ> parseInt) ` set (tree_ids (years s))) + 1))"
proof -
  let ?L = "years_store (db s)"
  obtain n where n: "nextId s = Some n"
    "set (tree_ids (years s)) \<subseteq> id_numbers 0 n" "mset ?L = mset (years s)"
    using reachable_inv[OF assms] by (auto simp: tree_inv_def)
  have e: "?L = [] \<longleftrightarrow> years s = []" using n(3) by (metis mset_zero_iff)
  show ?thesis
  proof (cases "years s = []")
    case True
    then show ?thesis using e by (simp add: loadData_fields)
  next
    case False
    then have L: "?L \<noteq> []" using e by simp
    have ms: "mset (tree_ids ?L) = mset (tree_ids (years s))" using n(3) by (rule tree_ids_mset)
    then have st: "set (tree_ids ?L) = set (tree_ids (years s))" by (rule mset_eq_setD)
    obtain m where m: "math_max (map parseInt (tree_ids ?L)) = Some m"
      "m = Max ((the \<circ> parseInt) ` set (tree_ids ?L))"
      using math_max_ids[OF tree_ids_nonempty[OF L], of n] n(2) st by auto
    show ?thesis using False L m by (simp add: loadData_fields st)
  qed
qed


lemma counter_after_eq: "counter_after j n = map_option (\<lambda>m. m + int j) n"
proof (induction j)
  case 0
  show ?case by (cases n) (simp_all add: counter_after_def)
next
  case (Suc j)
  have "counter_after (Suc j) n = fst (generateId (counter_after j n))"
    by (simp add: counter_after_def)
  then show ?case unfolding Suc by (cases n) (simp_all add: generateId_def Let_def)
qed

lemma generateId_snd: "snd (generateId k) = toString (map_option (\<lambda>m. m + 1) k)"
  by (simp add: generateId_def Let_def)

text \<open>
  Claim C7. For the year at any position \<open>i\<close> of the list and any value of the counter,
  \<^verbatim>\<open>addSemester\<close> with the id of that year puts one new semester behind the semesters of the
  year, which stay as they are and in their order. The new semester has no course, its name
  is \<open>Semester N\<close> with \<open>N\<close> the number of semesters before plus 1, and its id is the text of
  the counter plus 1, plus 1 more for every earlier year of the same id; the list keeps its
  length and its other years, and the counter ends increased by the number of years of that
  id. With distinct year ids and the counter at \<open>n\<close>, the id is the text of \<open>n + 1\<close> and the
  counter becomes \<open>n + 1\<close>. In a reachable state the counter is a positive integer \<open>n\<close>, the
  id is the decimal numeral of \<open>n + 1\<close>, \<^verbatim>\<open>parseInt\<close> reads \<open>n + 1\<close> back from it, and no
  year, semester or course of the tree had that id before.
\<close>

theorem addSemester_appends:
  assumes "i < length (years s)" "year_id (years s ! i) = yearId"
  shows "years (addSemester yearId s) ! i =
           (years s ! i)\<lparr>semesters := semesters (years s ! i) @
              [\<lparr>semester_id = toString (map_option
                   (\<lambda>m. m + 1 + int (length (filter (\<lambda>y. year_id y = yearId) (take i (years s)))))
                   (nextId s)),
                semester_name = ''Semester '' @ show_nat (length (semesters (years s ! i)) + 1),
                courses = []\<rparr>]\<rparr>
         \<and> length (years (addSemester yearId s)) = length (years s)
         \<and> (\<forall>j < length (years s). year_id (years s ! j) \<noteq> yearId
               \<longrightarrow> years (addSemester yearId s) ! j = years s ! j)
         \<and> nextId (addSemester yearId s)
             = map_option (\<lambda>m. m + int (length (filter (\<lambda>y. year_id y = yearId) (years s))))
                 (nextId s)
         \<and> (distinct (map year_id (years s)) \<longrightarrow>
               (\<forall>n. nextId s = Some n \<longrightarrow>
                  years (addSemester yearId s) ! i =
                    (years s ! i)\<lparr>semesters := semesters (years s ! i) @
                       [\<lparr>semester_id = toString (Some (n + 1)),
                         semester_name =
                           ''Semester '' @ show_nat (length (semesters (years s ! i)) + 1),
                         courses = []\<rparr>]\<rparr>
                  \<and> nextId (addSemester yearId s) = Some (n + 1)))
         \<and> (reachable s \<longrightarrow>
               (\<exists>n. nextId s = Some n \<and> 0 < n
                  \<and> years (addSemester yearId s) ! i =
                    (years s ! i)\<lparr>semesters := semesters (years s ! i) @
                       [\<lparr>semester_id = show_nat (nat (n + 1)),
                         semester_name =
                           ''Semester '' @ show_nat (length (semesters (years s ! i)) + 1),
                         courses = []\<rparr>]\<rparr>
                  \<and> nextId (addSemester yearId s) = Some (n + 1)
                  \<and> toString (Some (n + 1)) = show_nat (nat (n + 1))
                  \<and> parseInt (show_nat (nat (n + 1))) = Some (n + 1)
                  \<and> show_nat (nat (n + 1)) \<notin> set (tree_ids (years s))))"
proof -
  let ?before = "length (filter (\<lambda>y. year_id y = yearId) (take i (years s)))"
  let ?count = "length (filter (\<lambda>y. year_id y = yearId) (years s))"
  let ?name = "''Semester '' @ show_nat (length (semesters (years s ! i)) + 1)"
  have y: "years (addSemester yearId s) = fst (addSemester_years yearId (years s) (nextId s))"
    and n: "nextId (addSemester yearId s) = snd (addSemester_years yearId (years s) (nextId s))"
    by (simp_all add: addSemester_def case_prod_beta)
  have idx: "map_option (\<lambda>m. m + 1) (map_option (\<lambda>m. m + int ?before) (nextId s))
             = map_option (\<lambda>m. m + 1 + int ?before) (nextId s)"
    by (cases "nextId s") simp_all
  have 1: "years (addSemester yearId s) ! i =
           (years s ! i)\<lparr>semesters := semesters (years s ! i) @
              [\<lparr>semester_id = toString (map_option (\<lambda>m. m + 1 + int ?before) (nextId s)),
                semester_name = ?name, courses = []\<rparr>]\<rparr>"
    unfolding y using assms
    by (simp add: addSemester_years_nth generateId_snd counter_after_eq idx)
  have 2: "length (years (addSemester yearId s)) = length (years s)"
    unfolding y by (rule addSemester_years_length)
  have 3: "\<forall>j < length (years s). year_id (years s ! j) \<noteq> yearId
               \<longrightarrow> years (addSemester yearId s) ! j = years s ! j"
    unfolding y by (simp add: addSemester_years_nth)
  have 4: "nextId (addSemester yearId s) = map_option (\<lambda>m. m + int ?count) (nextId s)"
    unfolding n by (simp add: addSemester_years_counter counter_after_eq)
  have 5: "years (addSemester yearId s) ! i =
             (years s ! i)\<lparr>semesters := semesters (years s ! i) @
                [\<lparr>semester_id = toString (Some (k + 1)), semester_name = ?name,
                  courses = []\<rparr>]\<rparr>
           \<and> nextId (addSemester yearId s) = Some (k + 1)"
    if d: "distinct (map year_id (years s))" and k: "nextId s = Some k" for k
    unfolding 1 4
    by (simp add: distinct_key_before[OF d assms] distinct_key_once[OF d assms] k)
  have 6: "\<exists>k. nextId s = Some k \<and> 0 < k
             \<and> years (addSemester yearId s) ! i =
                 (years s ! i)\<lparr>semesters := semesters (years s ! i) @
                    [\<lparr>semester_id = show_nat (nat (k + 1)), semester_name = ?name,
                      courses = []\<rparr>]\<rparr>
             \<and> nextId (addSemester yearId s) = Some (k + 1)
             \<and> toString (Some (k + 1)) = show_nat (nat (k + 1))
             \<and> parseInt (show_nat (nat (k + 1))) = Some (k + 1)
             \<and> show_nat (nat (k + 1)) \<notin> set (tree_ids (years s))"
    if r: "reachable s"
  proof -
    obtain k where k: "nextId s = Some k" "0 < k" "distinct (tree_ids (years s))"
      "set (tree_ids (years s)) \<subseteq> id_numbers 0 k"
      using reachable_inv[OF r] by (auto simp: tree_inv_def)
    have d: "distinct (map year_id (years s))" using k(3) by (rule distinct_year_ids)
    have t: "toString (Some (k + 1)) = show_nat (nat (k + 1))"
      using k(2) by (simp add: toString_def)
    have k0: "0 \<le> k" using k(2) by simp
    have p: "parseInt (show_nat (nat (k + 1))) = Some (k + 1)"
      using parseInt_toString[of "k + 1" "[]"] k(2) unfolding t by simp
    have "toString (Some (k + 1)) \<in> id_numbers k (k + 1)"
      using generated_id_number[OF k0, of "[]"] by simp
    moreover have "id_numbers 0 k \<inter> id_numbers k (k + 1) = {}"
      by (rule id_numbers_disjoint) simp
    ultimately have fresh: "show_nat (nat (k + 1)) \<notin> set (tree_ids (years s))"
      using k(4) unfolding t by blast
    have five: "years (addSemester yearId s) ! i =
             (years s ! i)\<lparr>semesters := semesters (years s ! i) @
                [\<lparr>semester_id = show_nat (nat (k + 1)), semester_name = ?name,
                  courses = []\<rparr>]\<rparr>"
      and cnt: "nextId (addSemester yearId s) = Some (k + 1)"
      using 5[OF d k(1)] unfolding t by simp_all
    show ?thesis
      by (rule exI[of _ k]) (intro conjI k(1) k(2) five cnt t p fresh)
  qed
  have 56: "distinct (map year_id (years s)) \<longrightarrow>
               (\<forall>n. nextId s = Some n \<longrightarrow>
                  years (addSemester yearId s) ! i =
                    (years s ! i)\<lparr>semesters := semesters (years s ! i) @
                       [\<lparr>semester_id = toString (Some (n + 1)), semester_name = ?name,
                         courses = []\<rparr>]\<rparr>
                  \<and> nextId (addSemester yearId s) = Some (n + 1))"
    using 5 by (intro impI allI)
  show ?thesis
    by (intro conjI 1 2 3 4 56) (rule impI, rule 6)
qed

theorem addSemester_appends_witness:
  "0 < length (years (loadData emptyDatabase))
   \<and> year_id (years (loadData emptyDatabase) ! 0) = ''1''
   \<and> reachable (loadData emptyDatabase)
   \<and> years (addSemester ''1'' (loadData emptyDatabase)) ! 0 =
       \<lparr>year_id = ''1'', year_name = ''Year 1'',
        semesters = [\<lparr>semester_id = ''1-1'', semester_name = ''Semester 1'', courses = []\<rparr>,
                     \<lparr>semester_id = ''1-2'', semester_name = ''Semester 2'', courses = []\<rparr>,
                     \<lparr>semester_id = ''2'', semester_name = ''Semester 3'', courses = []\<rparr>]\<rparr>
   \<and> nextId (addSemester ''1'' (loadData emptyDatabase)) = Some 2"
proof -
  have h1: "0 < length (years (loadData emptyDatabase))"
    and h2: "year_id (years (loadData emptyDatabase) ! 0) = ''1''"
    by (simp_all add: first_start_state initialYear_def)
  have r: "reachable (loadData emptyDatabase)" by (rule reachable.first_start)
  have d: "distinct (map year_id (years (loadData emptyDatabase)))"
    by (simp add: first_start_state)
  have n: "nextId (loadData emptyDatabase) = Some 1" by (simp add: first_start_state)
  have three: "show_nat (Suc (Suc (Suc 0))) = ''3''"
  proof -
    have "show_nat 3 = ''3''" by (simp add: show_nat_digit digit_char_values)
    then show ?thesis by (simp only: numeral_3_eq_3)
  qed
  have "years (addSemester ''1'' (loadData emptyDatabase)) ! 0 =
          (years (loadData emptyDatabase) ! 0)\<lparr>semesters :=
             semesters (years (loadData emptyDatabase) ! 0) @
               [\<lparr>semester_id = toString (Some (1 + 1)),
                 semester_name = ''Semester '' @
                   show_nat (length (semesters (years (loadData emptyDatabase) ! 0)) + 1),
                 courses = []\<rparr>]\<rparr>
        \<and> nextId (addSemester ''1'' (loadData emptyDatabase)) = Some (1 + 1)"
    using addSemester_appends[OF h1 h2] d n by blast
  then show ?thesis
    using h1 h2 r by (simp add: first_start_state initialYear_def toString_2 three)
qed

text \<open>
  Claim C2. A year list of the data model has pairwise distinct year ids. After \<^verbatim>\<open>saveData\<close>
  is called with such a list, the \<^verbatim>\<open>years\<close> store holds exactly the records of the list,
  each once, whatever it held before; the records are kept in ascending key order, and the
  profile store is not touched. The lists that the handlers save are the year lists of the
  reachable states: their year ids are distinct, and in every reachable state the store
  holds exactly the years of the list.
\<close>

theorem saveData_replaces:
  "(distinct (map year_id data) \<longrightarrow>
      mset (years_store (saveData data d)) = mset data
      \<and> set (years_store (saveData data d)) = set data
      \<and> sorted (map year_id (years_store (saveData data d)))
      \<and> profile_store (saveData data d) = profile_store d)
   \<and> (reachable s \<longrightarrow>
        distinct (map year_id (years s))
        \<and> mset (years_store (db s)) = mset (years s)
        \<and> set (years_store (db s)) = set (years s))"
proof -
  have 1: "mset (years_store (saveData data d)) = mset data
      \<and> set (years_store (saveData data d)) = set data
      \<and> sorted (map year_id (years_store (saveData data d)))
      \<and> profile_store (saveData data d) = profile_store d"
    if dist: "distinct (map year_id data)"
  proof -
    obtain rs where rs: "add_all data [] = Inr rs" "mset rs = mset data"
      using add_all_distinct[OF dist, of "[]"] by auto
    have "sorted (map year_id rs)" using add_all_sorted[OF rs(1)] by simp
    moreover have "set rs = set data" using rs(2) by (rule mset_eq_setD)
    ultimately show ?thesis using rs by (simp add: saveData_def)
  qed
  have 2: "distinct (map year_id (years s))
        \<and> mset (years_store (db s)) = mset (years s)
        \<and> set (years_store (db s)) = set (years s)"
    if r: "reachable s"
  proof -
    have i: "distinct (tree_ids (years s))" "mset (years_store (db s)) = mset (years s)"
      using reachable_inv[OF r] by (auto simp: tree_inv_def)
    show ?thesis using distinct_year_ids[OF i(1)] i(2) mset_eq_setD[OF i(2)] by simp
  qed
  show ?thesis using 1 2 by blast
qed

theorem saveData_replaces_witness:
  "distinct (map year_id [\<lparr>year_id = ''2'', year_name = ''Year 2'', semesters = []\<rparr>])
   \<and> set (years_store (saveData [\<lparr>year_id = ''2'', year_name = ''Year 2'', semesters = []\<rparr>]
                         \<lparr>years_store = [initialYear], profile_store = Map.empty\<rparr>))
     = {\<lparr>year_id = ''2'', year_name = ''Year 2'', semesters = []\<rparr>}
   \<and> reachable (addYear (loadData emptyDatabase))
   \<and> set (years_store (db (addYear (loadData emptyDatabase))))
     = set (years (addYear (loadData emptyDatabase)))"
proof -
  have d: "distinct (map year_id [\<lparr>year_id = ''2'', year_name = ''Year 2'', semesters = []\<rparr>])"
    by simp
  have r: "reachable (addYear (loadData emptyDatabase))"
    by (intro reachable.add_year reachable.first_start)
  have "set (years_store (saveData [\<lparr>year_id = ''2'', year_name = ''Year 2'', semesters = []\<rparr>]
                         \<lparr>years_store = [initialYear], profile_store = Map.empty\<rparr>))
     = {\<lparr>year_id = ''2'', year_name = ''Year 2'', semesters = []\<rparr>}"
    using d saveData_replaces[of "[\<lparr>year_id = ''2'', year_name = ''Year 2'', semesters = []\<rparr>]"
      "\<lparr>years_store = [initialYear], profile_store = Map.empty\<rparr>"]
    by simp
  moreover have "set (years_store (db (addYear (loadData emptyDatabase))))
     = set (years (addYear (loadData emptyDatabase)))"
    using r saveData_replaces[where s = "addYear (loadData emptyDatabase)"] by blast
  ultimately show ?thesis using d r by blast
qed

text \<open>
  Claim C4. From any reachable state, after any sequence of add operations (\<^verbatim>\<open>addYear\<close>,
  \<^verbatim>\<open>addSemester\<close>, \<^verbatim>\<open>addCourse\<close>, with any arguments), the ids of the years, semesters and
  courses of the tree are pairwise distinct. The generator is a counter that never
  decreases over these operations; a start of the application seeds it with 1 on a
  database without years, and otherwise with the greatest id value found in the stored
  tree plus 1 (the next id is one more).
\<close>

theorem ids_pairwise_distinct:
  assumes "reachable s"
  shows "distinct (tree_ids (years (foldl apply_add s ops)))
       \<and> (\<exists>n m. nextId s = Some n \<and> nextId (foldl apply_add s ops) = Some m \<and> n \<le> m)
       \<and> nextId (loadData (db s)) =
           (if years s = [] then Some 1
            else Some (Max ((the \<circ> parseInt) ` set (tree_ids (years s))) + 1))
       \<and> nextId (loadData emptyDatabase) = Some 1"
proof -
  have "tree_inv (foldl apply_add s ops)"
    using assms by (intro reachable_inv reachable_adds)
  then have "distinct (tree_ids (years (foldl apply_add s ops)))"
    by (auto simp: tree_inv_def)
  then show ?thesis
    using counter_adds[OF assms] restart_seed[OF assms] by (simp add: first_start_state)
qed

lemma toString_3_4: "toString (Some 3) = ''3''" "toString (Some 4) = ''4''"
  by (simp_all add: toString_def show_nat_digit digit_char_values)

theorem ids_pairwise_distinct_witness:
  "reachable (loadData emptyDatabase)
   \<and> tree_ids (years (foldl apply_add (loadData emptyDatabase)
         [AddYear, AddSemester ''1'', AddCourse ''1'' ''1-1'']))
     = [''1'', ''1-1'', ''4'', ''1-2'', ''3'', ''2'', ''2-1'', ''2-2'']
   \<and> distinct (tree_ids (years (foldl apply_add (loadData emptyDatabase)
         [AddYear, AddSemester ''1'', AddCourse ''1'' ''1-1''])))"
proof -
  have r: "reachable (loadData emptyDatabase)" by (rule reachable.first_start)
  have "tree_ids (years (foldl apply_add (loadData emptyDatabase)
         [AddYear, AddSemester ''1'', AddCourse ''1'' ''1-1'']))
     = [''1'', ''1-1'', ''4'', ''1-2'', ''3'', ''2'', ''2-1'', ''2-2'']"
    by (simp add: first_start_state initialYear_def addYear_def addSemester_def addCourse_def
          generateId_Some toString_2 toString_3_4 Let_def tree_ids_def year_ids_def
          semester_ids_def)
  then show ?thesis
    using r ids_pairwise_distinct[OF r,
        of "[AddYear, AddSemester ''1'', AddCourse ''1'' ''1-1'']"]
    by blast
qed

section \<open>The credits input\<close>

lemma parseInt_minus_5: "parseInt ''-5'' = Some (- 5)"
  by code_simp

lemma credits_input_unparsable: "parseInt v = None \<Longrightarrow> credits_input v = Fin 0"
  by (simp add: credits_input_def number_of_def)

text \<open>
  Claim C6 says that the coercion of the credits input maps every text to a non-negative
  integer, so that no course of a reachable tree has negative credits. The input element
  declares \<^verbatim>\<open>min="0"\<close>, but the handler replaces only \<open>NaN\<close> and 0: the text \<^verbatim>\<open>-5\<close> is
  read as \<open>-5\<close> and stored. The state below is reachable and its one course has \<open>-5\<close>
  credits.
\<close>

theorem credits_input_negative:
  "credits_input ''-5'' = Fin (- 5)
   \<and> reachable (updateCourse ''1'' ''1-1'' ''2'' (SetCredits (credits_input ''-5''))
                  (addCourse ''1'' ''1-1'' (loadData emptyDatabase)))
   \<and> map credits (courses (semesters (years
         (updateCourse ''1'' ''1-1'' ''2'' (SetCredits (credits_input ''-5''))
            (addCourse ''1'' ''1-1'' (loadData emptyDatabase))) ! 0) ! 0))
     = [Fin (- 5)]"
proof -
  have "to_double (of_int (- 5)) = Fin (of_int (- 5))" by (rule to_double_of_int) simp
  then have c: "credits_input ''-5'' = Fin (- 5)"
    by (simp add: credits_input_def number_of_def parseInt_minus_5 Let_def)
  have r: "reachable (updateCourse ''1'' ''1-1'' ''2'' (SetCredits (credits_input ''-5''))
                  (addCourse ''1'' ''1-1'' (loadData emptyDatabase)))"
    by (intro reachable.update_credits reachable.add_course reachable.first_start)
  have "map credits (courses (semesters (years
         (updateCourse ''1'' ''1-1'' ''2'' (SetCredits (Fin (- 5)))
            (addCourse ''1'' ''1-1'' (loadData emptyDatabase))) ! 0) ! 0))
     = [Fin (- 5)]"
    by (simp add: updateCourse_years_eq updateCourse_years_def first_course_years)
  then show ?thesis using c r by simp
qed

end
